theory Spec2Isabelle
  imports Main
begin

section \<open>JavaScript values\<close>

text \<open>
  The values that reach the code modelled here: \<open>undefined\<close> (also an absent property),
  \<open>null\<close>, \<open>NaN\<close>, integral numbers and strings. Numbers are unbounded integers:
  page numbers come out of \<open>parseInt\<close>, so they have no fraction; the rounding of doubles
  beyond \<open>2^53\<close> is not modelled. A string is a list of \<open>char\<close>, that is of code units
  below 256; text with other characters is outside the model.
\<close>

datatype jsval = JUndefined | JNull | JNaN | JNum int | JStr string

text \<open>The truthiness test of \<open>if (v)\<close>, \<open>!v\<close>, \<open>a && b\<close> and \<open>a || b\<close>.\<close>

fun truthy :: "jsval \<Rightarrow> bool" where
  "truthy JUndefined = False"
| "truthy JNull = False"
| "truthy JNaN = False"
| "truthy (JNum n) = (n \<noteq> 0)"
| "truthy (JStr s) = (s \<noteq> [])"

text \<open>\<open>a || b\<close>\<close>

definition js_or :: "jsval \<Rightarrow> jsval \<Rightarrow> jsval" where
  "js_or a b = (if truthy a then a else b)"

subsection \<open>parseInt\<close>

text \<open>
  \<open>parseInt(v)\<close> with no radix: the argument is converted to a string, leading white space
  is skipped, an optional sign is read, then a \<open>0x\<close> prefix selects base 16, and the
  longest prefix of digits is the value; no digit gives \<open>NaN\<close>. An integral number
  is its own decimal text, so \<open>parseInt\<close> returns it (numbers of 22 digits and more, which
  JavaScript prints with an exponent, are outside the model).
\<close>

text \<open>
  The white space that \<open>parseInt\<close> skips and \<open>String.prototype.trim\<close> strips, as far as
  it lies below 256: tab, line feed, vertical tab, form feed, carriage return, space and
  the no-break space \<open>U+00A0\<close>.
\<close>

definition is_space :: "char \<Rightarrow> bool" where
  "is_space c =
     (c \<in> set [CHR 0x09, CHR 0x0A, CHR 0x0B, CHR 0x0C, CHR 0x0D, CHR '' '', CHR 0xA0])"

definition digit_val :: "char \<Rightarrow> nat option" where
  "digit_val c =
     (let n = of_char c :: nat in
      if 48 \<le> n \<and> n \<le> 57 then Some (n - 48)
      else if 97 \<le> n \<and> n \<le> 102 then Some (n - 87)
      else if 65 \<le> n \<and> n \<le> 70 then Some (n - 55)
      else None)"

fun read_digits :: "nat \<Rightarrow> string \<Rightarrow> nat option \<Rightarrow> nat option" where
  "read_digits radix [] acc = acc"
| "read_digits radix (c # cs) acc =
     (case digit_val c of
        None \<Rightarrow> acc
      | Some d \<Rightarrow>
          if d < radix
          then read_digits radix cs (Some ((case acc of None \<Rightarrow> 0 | Some a \<Rightarrow> a) * radix + d))
          else acc)"

definition parse_unsigned :: "string \<Rightarrow> nat option" where
  "parse_unsigned s =
     (case s of
        c0 # cx # rest \<Rightarrow>
          if c0 = CHR ''0'' \<and> (cx = CHR ''x'' \<or> cx = CHR ''X'')
          then read_digits 16 rest None
          else read_digits 10 s None
      | _ \<Rightarrow> read_digits 10 s None)"

definition parseInt_string :: "string \<Rightarrow> jsval" where
  "parseInt_string s =
     (let t = dropWhile is_space s;
          neg = (t \<noteq> [] \<and> hd t = CHR ''-'');
          u = (if t \<noteq> [] \<and> (hd t = CHR ''-'' \<or> hd t = CHR ''+'') then tl t else t)
      in case parse_unsigned u of
           None \<Rightarrow> JNaN
         | Some n \<Rightarrow> JNum (if neg then - int n else int n))"

fun parseInt :: "jsval \<Rightarrow> jsval" where
  "parseInt (JStr s) = parseInt_string s"
| "parseInt (JNum n) = JNum n"
| "parseInt JUndefined = JNaN"
| "parseInt JNull = JNaN"
| "parseInt JNaN = JNaN"

section \<open>Slot catalog\<close>

text \<open>\<open>this.timeSlots\<close> of the \<open>TimesheetManager\<close> constructor (both client managers).\<close>

definition timeSlots :: "string list" where
  "timeSlots =
     [''9:00-10:00'', ''10:00-11:00'', ''11:00-11:10'', ''11:10-12:00'',
      ''12:00-01:00'', ''01:00-01:40'', ''01:40-03:00'', ''03:00-03:50'',
      ''03:50-04:00'', ''04:00-05:00'', ''05:00-06:00'', ''06:00-07:00'',
      ''07:00-08:00'']"

text \<open>\<open>Array.prototype.indexOf\<close>: the first index holding the value, \<open>-1\<close> when there is none.\<close>

fun indexOf_from :: "int \<Rightarrow> 'a list \<Rightarrow> 'a \<Rightarrow> int" where
  "indexOf_from i [] x = -1"
| "indexOf_from i (y # ys) x = (if y = x then i else indexOf_from (i + 1) ys x)"

definition indexOf :: "'a list \<Rightarrow> 'a \<Rightarrow> int" where
  "indexOf xs x = indexOf_from 0 xs x"

section \<open>Activity cells and the client state\<close>

text \<open>
  An activity cell is a JavaScript object; a property the object does not have reads as
  \<open>JUndefined\<close>. These are all the properties the clients and the server read or write.
\<close>

record activity =
  type :: jsval
  description :: jsval
  startPage :: jsval
  endPage :: jsval
  pagesDone :: jsval
  totalPages :: jsval
  timestamp :: jsval

text \<open>
  An employee object with the properties \<open>id\<close>, \<open>name\<close>, \<open>email\<close>, \<open>createdAt\<close> and
  \<open>createdat\<close>; \<open>None\<close> is a property that is absent or \<open>null\<close>. The object a client
  builds in \<open>addEmployee\<close> has \<open>createdAt\<close>. A row of the table \<open>employees\<close> is kept in
  the same record: its fourth column is declared as \<open>createdAt\<close> without quotes, so the
  database names it \<open>createdat\<close>, and that is the property of the row object the server
  returns; a row has no \<open>createdAt\<close>.
\<close>

record employee =
  e_id :: string
  e_name :: string
  e_email :: "string option"
  e_createdAt :: "string option"
  e_createdat :: "string option"

text \<open>
  The fields of \<open>TimesheetManager\<close> the modelled methods use. \<open>activities\<close> is the nested
  object \<open>dateKey \<rightarrow> employeeId \<rightarrow> timeSlot \<rightarrow> cell\<close>; \<open>currentDate\<close> is kept as the
  date key \<open>getDateKey\<close> formats it to. Keys that name a property of \<open>Object.prototype\<close>
  are outside the model.
\<close>

type_synonym day_map = "string \<rightharpoonup> (string \<rightharpoonup> (string \<rightharpoonup> activity))"

record manager =
  employees :: "employee list"
  activities :: day_map
  currentDate :: string
  selectedEmployeeId :: jsval
  currentActionType :: jsval

text \<open>\<open>getActivity(employeeId, timeSlot, date)\<close>; \<open>None\<close> is the \<open>null\<close> it returns.\<close>

definition getActivity :: "('a manager_scheme) \<Rightarrow> string \<Rightarrow> string \<Rightarrow> string \<Rightarrow> activity option" where
  "getActivity m employeeId timeSlot dateKey =
     (case activities m dateKey of
        None \<Rightarrow> None
      | Some byEmployee \<Rightarrow>
          (case byEmployee employeeId of
             None \<Rightarrow> None
           | Some bySlot \<Rightarrow> bySlot timeSlot))"

text \<open>
  \<open>isEmployeeOnFullDayLeave(employeeId)\<close>, read for its truth value (the source returns
  \<open>null\<close> or a boolean). \<open>this.timeSlots[0]\<close> is the head of the catalog.
\<close>

definition isEmployeeOnFullDayLeave :: "('a manager_scheme) \<Rightarrow> string \<Rightarrow> bool" where
  "isEmployeeOnFullDayLeave m employeeId =
     (case getActivity m employeeId (hd timeSlots) (currentDate m) of
        None \<Rightarrow> False
      | Some a \<Rightarrow> type a = JStr ''leave'' \<and> description a = JStr ''FULL_DAY_LEAVE'')"

section \<open>Aggregation\<close>

record totals =
  proofTotal :: int
  epubTotal :: int
  calibrTotal :: int

definition zero_totals :: totals where
  "zero_totals = \<lparr>proofTotal = 0, epubTotal = 0, calibrTotal = 0\<rparr>"

text \<open>The value of \<open>parseInt(act.pagesDone) || 0\<close>, a number.\<close>

definition pages_of :: "jsval \<Rightarrow> int" where
  "pages_of v = (case js_or (parseInt v) (JNum 0) of JNum n \<Rightarrow> n | _ \<Rightarrow> 0)"

text \<open>The body of the \<open>forEach\<close> over the slots in \<open>renderTimesheet\<close>.\<close>

definition add_slot :: "activity option \<Rightarrow> totals \<Rightarrow> totals" where
  "add_slot act t =
     (case act of
        None \<Rightarrow> t
      | Some a \<Rightarrow>
          if truthy (pagesDone a) then
            (let p = pages_of (pagesDone a) in
             if type a = JStr ''proof'' then t\<lparr>proofTotal := proofTotal t + p\<rparr>
             else if type a = JStr ''epub'' then t\<lparr>epubTotal := epubTotal t + p\<rparr>
             else if type a = JStr ''calibr'' then t\<lparr>calibrTotal := calibrTotal t + p\<rparr>
             else t)
          else t)"

text \<open>
  The totals block of \<open>renderTimesheet\<close> for one employee row: nothing is summed for an
  employee on full-day leave, otherwise every slot of the catalog is visited in order.
\<close>

definition computeTotals :: "('a manager_scheme) \<Rightarrow> string \<Rightarrow> totals" where
  "computeTotals m employeeId =
     (if isEmployeeOnFullDayLeave m employeeId then zero_totals
      else fold (\<lambda>slot t. add_slot (getActivity m employeeId slot (currentDate m)) t)
             timeSlots zero_totals)"

section \<open>The server (server-postgres.js)\<close>

text \<open>
  The tables of \<open>initDb\<close> that the modelled routes touch, as lists of rows. Text
  columns hold strings, a nullable column an optional string. The fields of a row are
  named as the statements of the source write the columns; the database folds these
  unquoted names to lower case (\<open>datekey\<close>, \<open>employeeid\<close>, \<open>timeslot\<close>, \<open>totalpages\<close>,
  \<open>pagesdone\<close>), which makes no difference inside a statement and shows where a route
  reads a row object (\<open>row_prop\<close>). The serial \<open>id\<close> columns are left out: no modelled
  route reads them, and \<open>original_id\<close> of \<open>deleted_activities\<close> is never written. A row of
  \<open>deleted_activities\<close> is the archived row with its \<open>deletedAt\<close>. The order of the rows in
  a list has no meaning: a query without \<open>ORDER BY\<close> returns them in an order the database
  chooses.
\<close>

record activity_row =
  r_dateKey :: string
  r_employeeId :: string
  r_timeSlot :: string
  r_type :: string
  r_description :: "string option"
  r_totalPages :: "string option"
  r_pagesDone :: "string option"
  r_timestamp :: "string option"

record db =
  db_employees :: "employee list"
  db_activities :: "activity_row list"
  db_deleted_activities :: "(activity_row \<times> string) list"

subsection \<open>Values on the wire\<close>

text \<open>Decimal text of an integer, as \<open>Number.prototype.toString\<close> prints it.\<close>

fun show_nat :: "nat \<Rightarrow> string" where
  "show_nat n =
     (if n < 10 then [''0123456789'' ! n]
      else show_nat (n div 10) @ [''0123456789'' ! (n mod 10)])"

declare show_nat.simps [simp del]

definition show_int :: "int \<Rightarrow> string" where
  "show_int i = (if i < 0 then CHR ''-'' # show_nat (nat (- i)) else show_nat (nat i))"

text \<open>
  The string a value converts to, as a property key and in a template literal.
\<close>

fun js_string :: "jsval \<Rightarrow> string" where
  "js_string (JStr s) = s"
| "js_string (JNum n) = show_int n"
| "js_string JUndefined = ''undefined''"
| "js_string JNull = ''null''"
| "js_string JNaN = ''NaN''"

text \<open>
  A field of a JSON request body as the database driver binds it to a statement
  parameter: \<open>JSON.stringify\<close> omits \<open>undefined\<close> and writes \<open>NaN\<close> as \<open>null\<close>, a field
  missing from the body is destructured to \<open>undefined\<close>, and the driver sends \<open>undefined\<close>
  and \<open>null\<close> as SQL \<open>NULL\<close>, a number as its text and a string as it is.
\<close>

fun sql_param :: "jsval \<Rightarrow> string option" where
  "sql_param JUndefined = None"
| "sql_param JNull = None"
| "sql_param JNaN = None"
| "sql_param (JNum n) = Some (show_int n)"
| "sql_param (JStr s) = Some s"

text \<open>A column value in a JSON response: SQL \<open>NULL\<close> is \<open>null\<close>.\<close>

fun json_column :: "string option \<Rightarrow> jsval" where
  "json_column None = JNull"
| "json_column (Some s) = JStr s"

text \<open>
  \<open>VARCHAR(n)\<close>: a longer value is rejected by the database. (That the database cuts
  a value whose excess characters are all spaces is not modelled.)
\<close>

fun fits :: "nat \<Rightarrow> string option \<Rightarrow> bool" where
  "fits n None = True"
| "fits n (Some s) = (length s \<le> n)"

subsection \<open>\<open>POST /api/activities\<close>\<close>

text \<open>The request body: the three key fields and the fields of the cell.\<close>

record payload =
  p_dateKey :: jsval
  p_employeeId :: jsval
  p_timeSlot :: jsval
  p_cell :: activity

definition same_key :: "activity_row \<Rightarrow> string \<Rightarrow> string \<Rightarrow> string \<Rightarrow> bool" where
  "same_key r dk eid slot = (r_dateKey r = dk \<and> r_employeeId r = eid \<and> r_timeSlot r = slot)"

text \<open>
  \<open>INSERT ... ON CONFLICT (dateKey, employeeId, timeSlot) DO UPDATE SET ...\<close>: a row with
  the key of the new one takes over its five value columns, otherwise the new row is added.
\<close>

definition upsert :: "activity_row \<Rightarrow> activity_row list \<Rightarrow> activity_row list" where
  "upsert new rows =
     (if list_ex (\<lambda>r. same_key r (r_dateKey new) (r_employeeId new) (r_timeSlot new)) rows
      then map (\<lambda>r. if same_key r (r_dateKey new) (r_employeeId new) (r_timeSlot new)
                     then r\<lparr>r_type := r_type new, r_description := r_description new,
                            r_totalPages := r_totalPages new, r_pagesDone := r_pagesDone new,
                            r_timestamp := r_timestamp new\<rparr>
                     else r) rows
      else rows @ [new])"

text \<open>
  The route handler. It checks nothing itself; the statement fails, and the route answers
  500 (\<open>None\<close>), when a \<open>NOT NULL\<close> column would be null, a value is too long for its
  column, or \<open>employeeId\<close> names no row of \<open>employees\<close> (\<open>fk_employee\<close>). The fields
  \<open>startPage\<close> and \<open>endPage\<close> of a body are not destructured: the table has no such columns.
\<close>

definition post_activities :: "payload \<Rightarrow> db \<Rightarrow> db option" where
  "post_activities body d =
     (case (sql_param (p_dateKey body), sql_param (p_employeeId body),
            sql_param (p_timeSlot body), sql_param (type (p_cell body))) of
        (Some dk, Some eid, Some slot, Some ty) \<Rightarrow>
          (let new = \<lparr>r_dateKey = dk, r_employeeId = eid, r_timeSlot = slot, r_type = ty,
                      r_description = sql_param (description (p_cell body)),
                      r_totalPages = sql_param (totalPages (p_cell body)),
                      r_pagesDone = sql_param (pagesDone (p_cell body)),
                      r_timestamp = sql_param (timestamp (p_cell body))\<rparr>
           in if length dk \<le> 255 \<and> length eid \<le> 255 \<and> length slot \<le> 255 \<and> length ty \<le> 50
                 \<and> fits 50 (r_totalPages new) \<and> fits 50 (r_pagesDone new)
                 \<and> fits 255 (r_timestamp new)
                 \<and> eid \<in> set (map e_id (db_employees d))
              then Some (d\<lparr>db_activities := upsert new (db_activities d)\<rparr>)
              else None)
      | _ \<Rightarrow> None)"

subsection \<open>\<open>GET /api/activities\<close>\<close>

text \<open>
  \<open>row[name]\<close> for a row object of \<open>result.rows\<close>: the driver names the properties after
  the columns as the database reports them, in lower case, so a property read with
  another spelling is \<open>undefined\<close>.
\<close>

definition row_prop :: "activity_row \<Rightarrow> string \<Rightarrow> jsval" where
  "row_prop row name =
     (if name = ''datekey'' then JStr (r_dateKey row)
      else if name = ''employeeid'' then JStr (r_employeeId row)
      else if name = ''timeslot'' then JStr (r_timeSlot row)
      else if name = ''type'' then JStr (r_type row)
      else if name = ''description'' then json_column (r_description row)
      else if name = ''totalpages'' then json_column (r_totalPages row)
      else if name = ''pagesdone'' then json_column (r_pagesDone row)
      else if name = ''timestamp'' then json_column (r_timestamp row)
      else JUndefined)"

text \<open>
  The object literal of the route,
  \<open>{type: row.type, description: row.description, totalPages: row.totalPages,
  pagesDone: row.pagesDone, timestamp: row.timestamp}\<close>; \<open>res.json\<close> leaves out a property
  that is \<open>undefined\<close>.
\<close>

definition row_cell :: "activity_row \<Rightarrow> activity" where
  "row_cell row =
     \<lparr>type = row_prop row ''type'', description = row_prop row ''description'',
      startPage = JUndefined, endPage = JUndefined,
      pagesDone = row_prop row ''pagesDone'', totalPages = row_prop row ''totalPages'',
      timestamp = row_prop row ''timestamp''\<rparr>"

text \<open>
  \<open>m[dk][eid][slot] = cell\<close>, after the two \<open>if (!m[..]) m[..] = {}\<close> that create the
  missing levels.
\<close>

definition set_cell :: "day_map \<Rightarrow> string \<Rightarrow> string \<Rightarrow> string \<Rightarrow> activity \<Rightarrow> day_map" where
  "set_cell m dk eid slot cell =
     (let byEmployee = (case m dk of None \<Rightarrow> Map.empty | Some e \<Rightarrow> e);
          bySlot = (case byEmployee eid of None \<Rightarrow> Map.empty | Some s \<Rightarrow> s)
      in m(dk \<mapsto> byEmployee(eid \<mapsto> bySlot(slot \<mapsto> cell))))"

text \<open>
  The response: the rows, all of them or those of the date in the query (an empty
  \<open>dateKey\<close> is falsy and selects all), in the order \<open>answer\<close> in which the database
  returns them, each filed under \<open>row.dateKey\<close>, \<open>row.employeeId\<close> and \<open>row.timeSlot\<close>.
  A property key is the string of the value, \<open>undefined\<close> included.
\<close>

definition get_activities ::
  "(activity_row list \<Rightarrow> activity_row list) \<Rightarrow> string option \<Rightarrow> db \<Rightarrow> day_map" where
  "get_activities answer q d =
     (let rows = answer (case q of
                    None \<Rightarrow> db_activities d
                  | Some dk \<Rightarrow> if dk = [] then db_activities d
                               else filter (\<lambda>r. r_dateKey r = dk) (db_activities d))
      in fold (\<lambda>row m. set_cell m (js_string (row_prop row ''dateKey''))
                          (js_string (row_prop row ''employeeId''))
                          (js_string (row_prop row ''timeSlot'')) (row_cell row))
           rows Map.empty)"

text \<open>One cell of a nested object, \<open>None\<close> when a level is missing.\<close>

definition cell_at :: "day_map \<Rightarrow> string \<Rightarrow> string \<Rightarrow> string \<Rightarrow> activity option" where
  "cell_at m dk eid slot =
     (case m dk of
        None \<Rightarrow> None
      | Some byEmployee \<Rightarrow>
          (case byEmployee eid of None \<Rightarrow> None | Some bySlot \<Rightarrow> bySlot slot))"

subsection \<open>\<open>DELETE /api/activities\<close>\<close>

text \<open>
  One transaction: the rows of the key are copied to \<open>deleted_activities\<close> with the time
  of the request, then deleted; \<open>changes\<close> is the row count of the delete. A null key
  field compares equal to nothing.
\<close>

definition delete_activities :: "string \<Rightarrow> jsval \<Rightarrow> jsval \<Rightarrow> jsval \<Rightarrow> db \<Rightarrow> nat \<times> db" where
  "delete_activities now dk eid slot d =
     (case (sql_param dk, sql_param eid, sql_param slot) of
        (Some k, Some e, Some s) \<Rightarrow>
          (let hit = filter (\<lambda>r. same_key r k e s) (db_activities d)
           in (length hit,
               d\<lparr>db_deleted_activities := db_deleted_activities d @ map (\<lambda>r. (r, now)) hit,
                 db_activities := filter (\<lambda>r. \<not> same_key r k e s) (db_activities d)\<rparr>))
      | _ \<Rightarrow> (0, d))"

subsection \<open>\<open>DELETE /api/employees/:id\<close>\<close>

text \<open>
  One transaction: the employee's activity rows are copied to \<open>deleted_activities\<close>, then
  deleted, then the employee row is deleted. \<open>changes\<close> in the response is
  \<open>result.rowCount\<close>, where \<open>result\<close> is the result of the delete from \<open>employees\<close>.
\<close>

definition delete_employee :: "string \<Rightarrow> string \<Rightarrow> db \<Rightarrow> nat \<times> db" where
  "delete_employee now ident d =
     (let hit = filter (\<lambda>r. r_employeeId r = ident) (db_activities d)
      in (length (filter (\<lambda>e. e_id e = ident) (db_employees d)),
          d\<lparr>db_deleted_activities := db_deleted_activities d @ map (\<lambda>r. (r, now)) hit,
            db_activities := filter (\<lambda>r. r_employeeId r \<noteq> ident) (db_activities d),
            db_employees := filter (\<lambda>e. e_id e \<noteq> ident) (db_employees d)\<rparr>))"

subsection \<open>\<open>GET\<close> and \<open>POST /api/employees\<close>\<close>

text \<open>
  \<open>SELECT * FROM employees ORDER BY name\<close>: the rows sorted by name under the collation
  of the database, rows of one name in an order the database chooses. \<open>answer\<close> is that
  order. The response is the list of the row objects.
\<close>

definition get_employees :: "(employee list \<Rightarrow> employee list) \<Rightarrow> db \<Rightarrow> employee list" where
  "get_employees answer d = answer (db_employees d)"

text \<open>
  The body of \<open>POST /api/employees\<close>, for requests without a password: the branch that
  writes the \<open>users\<close> table needs both \<open>username\<close> and \<open>password\<close> and is skipped.
\<close>

record employee_body =
  b_id :: jsval
  b_name :: jsval
  b_email :: jsval
  b_createdAt :: jsval

text \<open>
  One transaction. Another employee of that name (\<open>name = $1 AND id != $2\<close>, with
  \<open>id || ''\<close> for \<open>$2\<close>) makes the route answer 400; a null \<open>id\<close> or \<open>name\<close> or a value
  that is too long makes the insert fail and the route answer 500. Both are \<open>None\<close>.
  Otherwise the row is inserted, or, when the \<open>id\<close> exists,
  \<open>ON CONFLICT (id) DO UPDATE SET name = ..., email = ...\<close>.
\<close>

definition post_employees :: "employee_body \<Rightarrow> db \<Rightarrow> db option" where
  "post_employees body d =
     (let nm = sql_param (b_name body);
          other = sql_param (js_or (b_id body) (JStr ''''));
          existing = filter (\<lambda>e. Some (e_name e) = nm \<and> Some (e_id e) \<noteq> other) (db_employees d);
          email = sql_param (js_or (b_email body) (JStr ''''));
          created = sql_param (b_createdAt body)
      in if existing \<noteq> [] then None
         else
           (case (sql_param (b_id body), nm) of
              (Some i, Some n) \<Rightarrow>
                if length i \<le> 255 \<and> length n \<le> 255 \<and> fits 255 email \<and> fits 255 created
                then Some (d\<lparr>db_employees :=
                       (if list_ex (\<lambda>e. e_id e = i) (db_employees d)
                        then map (\<lambda>e. if e_id e = i then e\<lparr>e_name := n, e_email := email\<rparr> else e)
                               (db_employees d)
                        else db_employees d @
                               [\<lparr>e_id = i, e_name = n, e_email = email, e_createdAt = None,
                                 e_createdat = created\<rparr>])\<rparr>)
                else None
            | _ \<Rightarrow> None))"

subsection \<open>States of the database\<close>

text \<open>The tables after \<open>initDb\<close>.\<close>

definition empty_db :: db where
  "empty_db = \<lparr>db_employees = [], db_activities = [], db_deleted_activities = []\<rparr>"

text \<open>The states the modelled routes lead to.\<close>

inductive reachable :: "db \<Rightarrow> bool" where
  reach_init: "reachable empty_db"
| reach_post_employees:
    "reachable d \<Longrightarrow> post_employees body d = Some d' \<Longrightarrow> reachable d'"
| reach_post_activities:
    "reachable d \<Longrightarrow> post_activities pbody d = Some d' \<Longrightarrow> reachable d'"
| reach_delete_activities:
    "reachable d \<Longrightarrow> reachable (snd (delete_activities t dk eid slot d))"
| reach_delete_employee:
    "reachable d \<Longrightarrow> reachable (snd (delete_employee t ident d))"

text \<open>
  The constraints of the tables: \<open>unique_activity\<close>, the primary key of \<open>employees\<close>,
  and \<open>fk_employee\<close>.
\<close>

definition row_key :: "activity_row \<Rightarrow> string \<times> string \<times> string" where
  "row_key r = (r_dateKey r, r_employeeId r, r_timeSlot r)"

definition unique_activity :: "db \<Rightarrow> bool" where
  "unique_activity d = distinct (map row_key (db_activities d))"

definition employees_pkey :: "db \<Rightarrow> bool" where
  "employees_pkey d = distinct (map e_id (db_employees d))"

definition fk_employee :: "db \<Rightarrow> bool" where
  "fk_employee d = list_all (\<lambda>r. r_employeeId r \<in> set (map e_id (db_employees d))) (db_activities d)"

text \<open>
  Invariant I2 on the stored rows, for one day of one employee: when the row of the first
  slot is the full-day marker, no other slot of the catalog has a row. Invariant I3 on
  one row: \<open>pagesDone\<close> is set only for the paginated types.
\<close>

definition is_marker :: "activity_row \<Rightarrow> bool" where
  "is_marker r =
     (r_timeSlot r = hd timeSlots \<and> r_type r = ''leave''
      \<and> r_description r = Some ''FULL_DAY_LEAVE'')"

definition inv_I2 :: "db \<Rightarrow> string \<Rightarrow> string \<Rightarrow> bool" where
  "inv_I2 d dk eid =
     (list_ex (\<lambda>r. r_dateKey r = dk \<and> r_employeeId r = eid \<and> is_marker r) (db_activities d)
      \<longrightarrow> \<not> list_ex (\<lambda>r. r_dateKey r = dk \<and> r_employeeId r = eid
                          \<and> r_timeSlot r \<in> set (tl timeSlots)) (db_activities d))"


text \<open>The row the full-day marker is stored as.\<close>

definition marker_row :: "string \<Rightarrow> string \<Rightarrow> string \<Rightarrow> activity_row" where
  "marker_row dk e ts =
     \<lparr>r_dateKey = dk, r_employeeId = e, r_timeSlot = hd timeSlots, r_type = ''leave'',
      r_description = Some ''FULL_DAY_LEAVE'', r_totalPages = None, r_pagesDone = None,
      r_timestamp = Some ts\<rparr>"

section \<open>The client managers and their environment\<close>

text \<open>
  Two client managers are in the repository: the \<open>TimesheetManager\<close> of
  \<open>src/script.js\<close>, and a second \<open>TimesheetManager\<close>, the class that starts at line 36 of
  \<open>src/reset_admin_force.js\<close>. Where the two differ in what they do to the state, the
  method of the second carries the suffix \<open>_raf\<close>; a method with one definition is the
  same in both. Rendering, toasts, dialogs and the audit log (\<open>activityTracker\<close>) are not
  part of the state. \<open>renderTimesheet\<close> also sorts \<open>this.employees\<close> by name in place
  (when it gets that far), which is left out: the order of the roster is read only by
  the scans of \<open>syncEmployees\<close>, and those run before the first \<open>renderTimesheet\<close> that
  \<open>syncEmployees\<close> leads to.

  A world is a manager together with what it talks to: the database behind the server,
  and the network. \<open>sent\<close> counts the requests made so far; request number \<open>n\<close> is
  answered by the server iff \<open>online n\<close>, otherwise \<open>fetch\<close> rejects or the server
  answers 500 without touching the database. \<open>clock n\<close> is what
  \<open>new Date().toISOString()\<close> returns once \<open>n\<close> requests have been sent, and \<open>ids n\<close> what
  \<open>Date.now().toString() + Math.random().toString(36).substr(2, 5)\<close> returns then.
  \<open>employees_order n\<close> and \<open>activities_order n\<close> are the orders in which the database
  returns rows to request \<open>n\<close> (see \<open>get_employees\<close> and \<open>get_activities\<close>), and
  \<open>other_request\<close> is what becomes of a \<open>DELETE\<close> whose URL is not that of a plain id
  (see \<open>deleteEmployee\<close>).
\<close>

record world = manager +
  server :: db
  online :: "nat \<Rightarrow> bool"
  clock :: "nat \<Rightarrow> string"
  ids :: "nat \<Rightarrow> string"
  sent :: nat
  employees_order :: "nat \<Rightarrow> employee list \<Rightarrow> employee list"
  activities_order :: "nat \<Rightarrow> activity_row list \<Rightarrow> activity_row list"
  other_request :: "string \<Rightarrow> db \<Rightarrow> bool \<times> db"

definition now :: "world \<Rightarrow> string" where
  "now w = clock w (sent w)"

text \<open>\<open>this.timeSlots[i]\<close>: \<open>undefined\<close> outside the catalog.\<close>

definition slot_at :: "int \<Rightarrow> jsval" where
  "slot_at i =
     (if 0 \<le> i \<and> i < int (length timeSlots) then JStr (timeSlots ! nat i) else JUndefined)"

subsection \<open>Requests\<close>

text \<open>
  \<open>fetch('/api/activities', {method: 'POST', ...})\<close>; the boolean is \<open>res.ok\<close>.
  A rejected \<open>fetch\<close> and an answer that is not ok both leave the manager as it was, so
  they are one case.
\<close>

definition fetch_post_activities :: "world \<Rightarrow> payload \<Rightarrow> bool \<times> world" where
  "fetch_post_activities w body =
     (let w' = w\<lparr>sent := Suc (sent w)\<rparr>
      in if online w (sent w)
         then (case post_activities body (server w) of
                 None \<Rightarrow> (False, w')
               | Some d \<Rightarrow> (True, w'\<lparr>server := d\<rparr>))
         else (False, w'))"

text \<open>\<open>fetch('/api/activities', {method: 'DELETE', ...})\<close>\<close>

definition fetch_delete_activities :: "world \<Rightarrow> jsval \<Rightarrow> jsval \<Rightarrow> jsval \<Rightarrow> bool \<times> world" where
  "fetch_delete_activities w dk eid slot =
     (let w' = w\<lparr>sent := Suc (sent w)\<rparr>
      in if online w (sent w)
         then (True, w'\<lparr>server := snd (delete_activities (now w) dk eid slot (server w))\<rparr>)
         else (False, w'))"

subsection \<open>Single cells\<close>

text \<open>
  \<open>setActivity(employeeId, timeSlot, activityData)\<close>, with the date defaulted to
  \<open>this.currentDate\<close> as every caller does. The local object is updated only after the
  server answered ok.
\<close>

definition setActivity :: "world \<Rightarrow> jsval \<Rightarrow> jsval \<Rightarrow> activity \<Rightarrow> world" where
  "setActivity w employeeId timeSlot activityData =
     (let dk = currentDate w;
          body = \<lparr>p_dateKey = JStr dk, p_employeeId = employeeId, p_timeSlot = timeSlot,
                  p_cell = activityData\<rparr>;
          (ok, w') = fetch_post_activities w body
      in if ok
         then w'\<lparr>activities :=
                   set_cell (activities w') dk (js_string employeeId) (js_string timeSlot)
                     activityData\<rparr>
         else w')"

text \<open>
  \<open>delete m[dk][eid][slot]\<close> when the two outer levels exist. (The guard of
  \<open>src/script.js\<close> also asks for the cell itself; deleting a missing property changes
  nothing, so the object is the same.)
\<close>

definition del_cell :: "day_map \<Rightarrow> string \<Rightarrow> string \<Rightarrow> string \<Rightarrow> day_map" where
  "del_cell m dk eid slot =
     (case m dk of
        None \<Rightarrow> m
      | Some byEmployee \<Rightarrow>
          (case byEmployee eid of
             None \<Rightarrow> m
           | Some bySlot \<Rightarrow> m(dk \<mapsto> byEmployee(eid \<mapsto> bySlot(slot := None)))))"

text \<open>\<open>clearActivity(employeeId, timeSlot)\<close>\<close>

definition clearActivity :: "world \<Rightarrow> jsval \<Rightarrow> jsval \<Rightarrow> world" where
  "clearActivity w employeeId timeSlot =
     (let dk = currentDate w;
          (ok, w') = fetch_delete_activities w (JStr dk) employeeId timeSlot
      in if ok
         then w'\<lparr>activities := del_cell (activities w') dk (js_string employeeId) (js_string timeSlot)\<rparr>
         else w')"

subsection \<open>Full-day leave\<close>

definition new_cell :: "jsval \<Rightarrow> jsval \<Rightarrow> string \<Rightarrow> activity" where
  "new_cell ty desc ts =
     \<lparr>type = ty, description = desc, startPage = JUndefined, endPage = JUndefined,
      pagesDone = JUndefined, totalPages = JUndefined, timestamp = JStr ts\<rparr>"

text \<open>
  \<open>executeFullDayLeave(employeeId)\<close> of \<open>src/script.js\<close>: the marker is written at
  \<open>timeSlots[0]\<close>, then \<open>for (let i = 1; i < this.timeSlots.length; i++)\<close> clears the
  other slots. Neither \<open>setActivity\<close> nor \<open>clearActivity\<close> throws, so the \<open>catch\<close> is never
  entered.
\<close>

definition executeFullDayLeave :: "world \<Rightarrow> jsval \<Rightarrow> world" where
  "executeFullDayLeave w employeeId =
     (let w1 = setActivity w employeeId (slot_at 0)
                 (new_cell (JStr ''leave'') (JStr ''FULL_DAY_LEAVE'') (now w))
      in fold (\<lambda>i w'. clearActivity w' employeeId (slot_at i))
           [1 .. int (length timeSlots) - 1] w1)"

text \<open>
  \<open>closeEmployeeActionModal()\<close> of the second manager forgets the selected employee; the
  one of \<open>src/script.js\<close> only hides the dialog.
\<close>

definition closeEmployeeActionModal_raf :: "world \<Rightarrow> world" where
  "closeEmployeeActionModal_raf w = w\<lparr>selectedEmployeeId := JNull\<rparr>"

definition executeFullDayLeave_raf :: "world \<Rightarrow> jsval \<Rightarrow> world" where
  "executeFullDayLeave_raf w employeeId =
     (let w1 = setActivity w employeeId (slot_at 0)
                 (new_cell (JStr ''leave'') (JStr ''FULL_DAY_LEAVE'') (now w));
          w2 = fold (\<lambda>i w'. clearActivity w' employeeId (slot_at i))
                 [1 .. int (length timeSlots) - 1] w1
      in closeEmployeeActionModal_raf w2)"

subsection \<open>Leave and permission over a range of slots\<close>

text \<open>
  What \<open>handleLeavePermissionSubmit\<close> reads from the form: the full-day check box, the
  two slot selections, the reason field, and (second manager) the hidden input that
  backs up the selected employee.
\<close>

record leave_form =
  fullDayCheck :: bool
  startSlot :: string
  endSlot :: string
  permissionReason :: string
  actionEmployeeId :: string

text \<open>
  The rejections, each a return before anything is sent: \<open>InvalidRange\<close> is the toast
  \<open>End time must be after start\<close>, \<open>MissingReason\<close> is
  \<open>Please enter a reason for permission\<close>, \<open>NoEmployee\<close> is \<open>No employee selected\<close>.
\<close>

datatype error = InvalidRange | MissingReason | NoEmployee

text \<open>\<open>String.prototype.trim\<close>\<close>

definition trim :: "string \<Rightarrow> string" where
  "trim s = rev (dropWhile is_space (rev (dropWhile is_space s)))"

text \<open>\<open>for (let i = startIndex; i <= endIndex; i++) await this.setActivity(...)\<close>\<close>

definition mark_slots :: "world \<Rightarrow> jsval \<Rightarrow> jsval \<Rightarrow> string \<Rightarrow> int \<Rightarrow> int \<Rightarrow> world" where
  "mark_slots w employeeId ty desc startIndex endIndex =
     fold (\<lambda>i w'. setActivity w' employeeId (slot_at i) (new_cell ty (JStr desc) (now w')))
       [startIndex .. endIndex] w"

text \<open>\<open>handleLeavePermissionSubmit()\<close> of \<open>src/script.js\<close>.\<close>

definition handleLeavePermissionSubmit :: "world \<Rightarrow> leave_form \<Rightarrow> error option \<times> world" where
  "handleLeavePermissionSubmit w f =
     (let reason = trim (permissionReason f)
      in if currentActionType w = JStr ''leave'' \<and> fullDayCheck f
         then (None, executeFullDayLeave w (selectedEmployeeId w))
         else
           (let startIndex = indexOf timeSlots (startSlot f);
                endIndex = indexOf timeSlots (endSlot f)
            in if startIndex > endIndex then (Some InvalidRange, w)
               else
                 (let desc = (if currentActionType w = JStr ''permission'' then reason
                              else startSlot f @ '' to '' @ endSlot f)
                  in (None,
                      mark_slots w (selectedEmployeeId w) (currentActionType w) desc
                        startIndex endIndex))))"

text \<open>
  \<open>handleLeavePermissionSubmit()\<close> of the second manager: the employee is restored from
  the hidden input when the field is empty, the range and the reason are checked, and
  only then the full-day box is looked at.
\<close>

definition handleLeavePermissionSubmit_raf :: "world \<Rightarrow> leave_form \<Rightarrow> error option \<times> world" where
  "handleLeavePermissionSubmit_raf w f =
     (let reason = trim (permissionReason f);
          w0 = (if \<not> truthy (selectedEmployeeId w) \<and> actionEmployeeId f \<noteq> []
                then w\<lparr>selectedEmployeeId := JStr (actionEmployeeId f)\<rparr> else w)
      in if \<not> truthy (selectedEmployeeId w0) then (Some NoEmployee, w0)
         else
           (let startIndex = indexOf timeSlots (startSlot f);
                endIndex = indexOf timeSlots (endSlot f)
            in if startIndex > endIndex then (Some InvalidRange, w0)
               else if currentActionType w0 = JStr ''permission'' \<and> reason = []
               then (Some MissingReason, w0)
               else if currentActionType w0 = JStr ''leave'' \<and> fullDayCheck f
               then (None,
                     closeEmployeeActionModal_raf
                       (executeFullDayLeave_raf w0 (selectedEmployeeId w0)))
               else
                 (let desc = (if currentActionType w0 = JStr ''permission'' then reason
                              else startSlot f @ '' to '' @ endSlot f @ '' '')
                  in (None,
                      closeEmployeeActionModal_raf
                        (mark_slots w0 (selectedEmployeeId w0) (currentActionType w0) desc
                           startIndex endIndex)))))"

subsection \<open>Entering an activity\<close>

text \<open>
  What \<open>handleActivitySubmit\<close> reads: the two hidden inputs, the type, the description
  and the two page inputs, and (second manager) the \<open>dataset\<close> of the form that backs up
  the hidden inputs.
\<close>

record activity_form =
  activityEmployeeId :: string
  activityTimeSlot :: string
  activityType :: string
  activityDescription :: string
  startPageValue :: string
  endPageValue :: string
  datasetEmployeeId :: jsval
  datasetTimeSlot :: jsval

definition paginated :: "string \<Rightarrow> bool" where
  "paginated ty = (ty \<in> set [''proof'', ''epub'', ''calibr''])"

text \<open>\<open>Math.max(0, end - start + 1)\<close>: \<open>NaN\<close> when a bound is \<open>NaN\<close>.\<close>

fun page_total :: "jsval \<Rightarrow> jsval \<Rightarrow> jsval" where
  "page_total (JNum start) (JNum stop) = JNum (max 0 (stop - start + 1))"
| "page_total _ _ = JNaN"

text \<open>\<open>` (Pages: ${start} - ${end}, Total: ${total})`\<close>\<close>

definition page_info :: "jsval \<Rightarrow> jsval \<Rightarrow> jsval \<Rightarrow> string" where
  "page_info start stop pages =
     '' (Pages: '' @ js_string start @ '' - '' @ js_string stop @ '', Total: ''
       @ js_string pages @ '')''"

text \<open>\<open>String.prototype.includes\<close>\<close>

fun starts_with :: "string \<Rightarrow> string \<Rightarrow> bool" where
  "starts_with s [] = True"
| "starts_with [] (p # ps) = False"
| "starts_with (c # cs) (p # ps) = (c = p \<and> starts_with cs ps)"

fun includes_str :: "string \<Rightarrow> string \<Rightarrow> bool" where
  "includes_str [] p = (p = [])"
| "includes_str (c # cs) p = (starts_with (c # cs) p \<or> includes_str cs p)"

text \<open>
  The object \<open>handleActivitySubmit\<close> of \<open>src/script.js\<close> passes to \<open>setActivity\<close>:
  \<open>pagesDone\<close> starts as \<open>0\<close>, and for a paginated type is computed from the two inputs,
  each \<open>parseInt(...) || 0\<close>.
\<close>

definition activityData :: "activity_form \<Rightarrow> string \<Rightarrow> activity" where
  "activityData f ts =
     (if paginated (activityType f)
      then
        (let start = js_or (parseInt (JStr (startPageValue f))) (JNum 0);
             stop = js_or (parseInt (JStr (endPageValue f))) (JNum 0);
             pages = page_total start stop
         in (new_cell (JStr (activityType f))
               (JStr (activityDescription f @ page_info start stop pages)) ts)
            \<lparr>pagesDone := pages\<rparr>)
      else (new_cell (JStr (activityType f)) (JStr (activityDescription f)) ts)
           \<lparr>pagesDone := JNum 0\<rparr>)"

definition handleActivitySubmit :: "world \<Rightarrow> activity_form \<Rightarrow> world" where
  "handleActivitySubmit w f =
     setActivity w (JStr (activityEmployeeId f)) (JStr (activityTimeSlot f))
       (activityData f (now w))"

text \<open>
  The object the second manager builds: the page fields are set only when both inputs
  are non-empty.
\<close>

definition activityData_raf :: "activity_form \<Rightarrow> string \<Rightarrow> activity" where
  "activityData_raf f ts =
     (let ty = activityType f;
          shown = (if ty = ''break'' then ''BREAK'' else if ty = ''lunch'' then ''LUNCH''
                  else trim (activityDescription f));
          base = new_cell (JStr ty) (JStr shown) ts
      in if paginated ty \<and> startPageValue f \<noteq> [] \<and> endPageValue f \<noteq> []
         then
           (let start = parseInt (JStr (startPageValue f));
                stop = parseInt (JStr (endPageValue f));
                pages = page_total start stop
            in base\<lparr>startPage := start, endPage := stop, pagesDone := pages,
                    description :=
                      JStr (if includes_str shown ''Pages:'' then shown
                            else shown @ page_info start stop pages)\<rparr>)
         else base)"

text \<open>
  \<open>handleActivitySubmit\<close> of the second manager: it returns early, after an alert, when
  the employee or the slot is unknown or no type is selected.
\<close>

definition handleActivitySubmit_raf :: "world \<Rightarrow> activity_form \<Rightarrow> world" where
  "handleActivitySubmit_raf w f =
     (let employeeId = (if activityEmployeeId f = [] then datasetEmployeeId f
                        else JStr (activityEmployeeId f));
          timeSlot = (if activityTimeSlot f = [] then datasetTimeSlot f
                      else JStr (activityTimeSlot f))
      in if \<not> truthy employeeId \<or> \<not> truthy timeSlot then w
         else if activityType f = [] then w
         else setActivity w employeeId timeSlot (activityData_raf f (now w)))"

subsection \<open>The roster\<close>

text \<open>
  \<open>loadData()\<close>: two requests at once, \<open>GET /api/employees\<close> and \<open>GET /api/activities\<close>
  without a \<open>dateKey\<close>; the roster and the activities are replaced by the two responses
  only when both are answered ok.
\<close>

definition loadData :: "world \<Rightarrow> world" where
  "loadData w =
     (let w' = w\<lparr>sent := sent w + 2\<rparr>
      in if online w (sent w) \<and> online w (Suc (sent w))
         then w'\<lparr>employees := get_employees (employees_order w (sent w)) (server w),
                 activities := get_activities (activities_order w (Suc (sent w))) None (server w)\<rparr>
         else w')"

text \<open>
  The id of an employee is pasted into the URL as it is, \<open>`/api/employees/${id}`\<close>. An id
  made of letters, digits, \<open>-\<close> and \<open>_\<close> is the last segment of the path as it stands,
  and the route receives it as \<open>req.params.id\<close>. Any other id (one with \<open>/\<close>, \<open>?\<close>, \<open>#\<close>,
  \<open>%\<close>, a dot or white space, or the empty one) goes through the URL parser of the
  browser and the router of the server, which are not modelled: whether the answer to
  such a request is ok, and what the request does to the database, is
  \<open>other_request w ident\<close>.
\<close>

definition plain_id :: "string \<Rightarrow> bool" where
  "plain_id s =
     (s \<noteq> [] \<and>
      list_all (\<lambda>c. c \<in> set (''ABCDEFGHIJKLMNOPQRSTUVWXYZabcdefghijklmnopqrstuvwxyz''
                               @ ''0123456789-_'')) s)"

text \<open>
  \<open>deleteEmployee(id, true)\<close>: after an ok answer the employee leaves the roster and
  \<open>delete this.activities[dateKey][id]\<close> runs for every date. The route itself answers
  ok whether or not it deleted anything.
\<close>

definition deleteEmployee :: "world \<Rightarrow> string \<Rightarrow> world" where
  "deleteEmployee w ident =
     (let w' = w\<lparr>sent := Suc (sent w)\<rparr>;
          (ok, d) = (if plain_id ident
                     then (True, snd (delete_employee (now w) ident (server w)))
                     else other_request w ident (server w))
      in if online w (sent w)
         then (if ok
               then w'\<lparr>server := d,
                       employees := filter (\<lambda>emp. e_id emp \<noteq> ident) (employees w),
                       activities := (\<lambda>dk. map_option (\<lambda>byEmployee. byEmployee(ident := None))
                                             (activities w dk))\<rparr>
               else w'\<lparr>server := d\<rparr>)
         else w')"

text \<open>
  \<open>addEmployee(name, true)\<close>, as \<open>syncEmployees\<close> calls it: \<open>username\<close> is \<open>true\<close> and
  there is no password, so the request carries no credentials. The roster gets the new
  employee only after an ok answer.
\<close>

definition addEmployee :: "world \<Rightarrow> string \<Rightarrow> world" where
  "addEmployee w name =
     (let ident = ids w (sent w);
          created = now w;
          body = \<lparr>b_id = JStr ident, b_name = JStr (trim name), b_email = JUndefined,
                  b_createdAt = JStr created\<rparr>;
          w' = w\<lparr>sent := Suc (sent w)\<rparr>
      in if online w (sent w)
         then (case post_employees body (server w) of
                 None \<Rightarrow> w'
               | Some d \<Rightarrow>
                   w'\<lparr>server := d,
                      employees := employees w @
                        [\<lparr>e_id = ident, e_name = trim name, e_email = None,
                          e_createdAt = Some created, e_createdat = None\<rparr>]\<rparr>)
         else w')"

text \<open>
  The scan for duplicates: \<open>seen\<close> is the set of names met so far, and an employee whose
  name was met before is a duplicate.
\<close>

fun duplicates :: "string set \<Rightarrow> employee list \<Rightarrow> employee list" where
  "duplicates seen [] = []"
| "duplicates seen (emp # emps) =
     (if e_name emp \<in> seen then emp # duplicates seen emps
      else duplicates (insert (e_name emp) seen) emps)"

text \<open>\<open>for (const emp of duplicates) await this.deleteEmployee(emp.id, true)\<close>\<close>

definition delete_all :: "world \<Rightarrow> employee list \<Rightarrow> world" where
  "delete_all w emps = fold (\<lambda>emp w'. deleteEmployee w' (e_id emp)) emps w"

text \<open>\<open>syncEmployees()\<close> of \<open>src/script.js\<close>: duplicates are removed, nothing else.\<close>

definition syncEmployees :: "world \<Rightarrow> world" where
  "syncEmployees w =
     (let dups = duplicates {} (employees w);
          w1 = delete_all w dups
      in if dups \<noteq> [] then loadData w1 else w1)"

text \<open>
  \<open>syncEmployees()\<close> of the second manager. The removal of every employee that is not
  in \<open>allowedEmployees\<close> is commented out in the source (\<open>DISABLED to prevent data loss\<close>);
  what is left of step 1 removes the first employee named \<open>Dhivyaharini\<close>.
\<close>

definition allowedEmployees :: "string list" where
  "allowedEmployees =
     [''Anitha'', ''Asha'', ''Aswini'', ''Balaji'', ''Dhivya'', ''Dharma'',
      ''Jegan'', ''Kamal'', ''Kumaran'', ''Loki'', ''Mani'', ''Nandhini'', ''Sakthi'',
      ''Sandhiya'', ''Sangeetha'', ''Vivek'', ''Yogesh'']"

text \<open>
  \<open>for (const name of names) if (!this.employees.some(emp => emp.name === name))
  await this.addEmployee(name, true)\<close>
\<close>

definition add_missing :: "world \<Rightarrow> string list \<Rightarrow> world" where
  "add_missing w names =
     fold (\<lambda>name w'. if list_ex (\<lambda>emp. e_name emp = name) (employees w') then w'
                      else addEmployee w' name) names w"

definition syncEmployees_raf :: "world \<Rightarrow> world" where
  "syncEmployees_raf w =
     (let w1 = (case find (\<lambda>emp. e_name emp = ''Dhivyaharini'') (employees w) of
                  None \<Rightarrow> w
                | Some empToDelete \<Rightarrow> deleteEmployee w (e_id empToDelete));
          w2 = delete_all w1 (duplicates {} (employees w1));
          w3 = loadData w2;
          w4 = add_missing w3 allowedEmployees
      in loadData w4)"

section \<open>Notions used in the statements\<close>

text \<open>
  A world in which every request is answered and the server accepts a write for
  employee \<open>e\<close> on the current date: the employee has a row, and the key and the clock
  readings fit their columns.
\<close>

definition accepting :: "world \<Rightarrow> string \<Rightarrow> bool" where
  "accepting w e =
     ((\<forall>n. online w n) \<and> e \<in> set (map e_id (db_employees (server w))) \<and> length e \<le> 255
      \<and> length (currentDate w) \<le> 255 \<and> (\<forall>n. length (clock w n) \<le> 255))"

text \<open>
  The row \<open>POST /api/activities\<close> stores for a cell written to a key of three strings:
  the five value columns as the driver binds them, and nothing else of the cell. (The
  type of a write that is accepted is not null.)
\<close>

definition stored_row :: "string \<Rightarrow> string \<Rightarrow> string \<Rightarrow> activity \<Rightarrow> activity_row" where
  "stored_row dk eid slot c =
     \<lparr>r_dateKey = dk, r_employeeId = eid, r_timeSlot = slot,
      r_type = (case sql_param (type c) of None \<Rightarrow> [] | Some ty \<Rightarrow> ty),
      r_description = sql_param (description c),
      r_totalPages = sql_param (totalPages c),
      r_pagesDone = sql_param (pagesDone c),
      r_timestamp = sql_param (timestamp c)\<rparr>"

text \<open>
  An order of answering that lists the rows it is given: every row as often as it is
  there.
\<close>

definition lists_all :: "('a list \<Rightarrow> 'a list) \<Rightarrow> bool" where
  "lists_all answer = (\<forall>rows x. count_list (answer rows) x = count_list rows x)"

text \<open>
  The roster with, of every name, only the first employee in list order: what removing
  the duplicates is to leave. \<open>seen\<close> are the names already kept.
\<close>

fun keep_first :: "string set \<Rightarrow> employee list \<Rightarrow> employee list" where
  "keep_first seen [] = []"
| "keep_first seen (emp # emps) =
     (if e_name emp \<in> seen then keep_first seen emps
      else emp # keep_first (insert (e_name emp) seen) emps)"

text \<open>
  The roster step 1 of the second manager leaves: without the first employee named
  \<open>Dhivyaharini\<close>.
\<close>

definition without_first_Dhivyaharini :: "employee list \<Rightarrow> employee list" where
  "without_first_Dhivyaharini emps =
     (case find (\<lambda>emp. e_name emp = ''Dhivyaharini'') emps of
        None \<Rightarrow> emps
      | Some d \<Rightarrow> filter (\<lambda>emp. e_id emp \<noteq> e_id d) emps)"

text \<open>
  A world in which the second manager can create employees with the requests numbered
  below \<open>h\<close>: every request is answered, every response to \<open>GET /api/employees\<close> lists the
  rows of the table, the clock readings fit their column, and the ids generated from now
  on and before request \<open>h\<close> are plain, fit their column, name no row of \<open>employees\<close> and
  are pairwise different.
\<close>

definition creating :: "world \<Rightarrow> nat \<Rightarrow> bool" where
  "creating w h =
     ((\<forall>n. online w n) \<and> (\<forall>n. lists_all (employees_order w n))
      \<and> (\<forall>n. length (clock w n) \<le> 255)
      \<and> (\<forall>n. sent w \<le> n \<and> n < h \<longrightarrow>
             plain_id (ids w n) \<and> length (ids w n) \<le> 255
             \<and> ids w n \<notin> set (map e_id (db_employees (server w)))
             \<and> (\<forall>m. n < m \<and> m < h \<longrightarrow> ids w m \<noteq> ids w n)))"

text \<open>
  The roster of the client lists the rows of \<open>employees\<close>, each once and in any order, by
  id and name, and the ids are plain.
\<close>

definition id_name :: "employee \<Rightarrow> string \<times> string" where
  "id_name emp = (e_id emp, e_name emp)"

definition roster_loaded :: "world \<Rightarrow> bool" where
  "roster_loaded w =
     (distinct (map e_id (employees w))
      \<and> set (map id_name (employees w)) = set (map id_name (db_employees (server w)))
      \<and> list_all (\<lambda>emp. plain_id (e_id emp)) (employees w))"

section \<open>Example states\<close>

text \<open>
  An order in which a database can answer \<open>ORDER BY name\<close>: by code units, rows of one
  name in the order of the list.
\<close>

fun name_le :: "string \<Rightarrow> string \<Rightarrow> bool" where
  "name_le [] t = True"
| "name_le (c # cs) [] = False"
| "name_le (c # cs) (d # ds) = ((of_char c :: nat) < of_char d \<or> (c = d \<and> name_le cs ds))"

fun insert_by_name :: "employee \<Rightarrow> employee list \<Rightarrow> employee list" where
  "insert_by_name emp [] = [emp]"
| "insert_by_name emp (x # xs) =
     (if name_le (e_name emp) (e_name x) then emp # x # xs else x # insert_by_name emp xs)"

definition sort_by_name :: "employee list \<Rightarrow> employee list" where
  "sort_by_name emps = foldr insert_by_name emps []"

text \<open>
  One employee with a proof-reading entry in the second slot of 10 January 2025, entered
  with the form of \<open>src/script.js\<close>; the client holds the cell and the server the row.
  Every request is answered, the database answers in the order above and, where no order
  is asked for, in the order of the list, and a \<open>DELETE\<close> for an id that is not plain is
  answered 404.
\<close>

definition example_employee :: employee where
  "example_employee =
     \<lparr>e_id = ''E'', e_name = ''Anitha'', e_email = Some '''', e_createdAt = None,
      e_createdat = None\<rparr>"

definition example_cell :: activity where
  "example_cell =
     \<lparr>type = JStr ''proof'', description = JStr ''chapter 2 (Pages: 1 - 7, Total: 7)'',
      startPage = JUndefined, endPage = JUndefined, pagesDone = JNum 7,
      totalPages = JUndefined, timestamp = JStr ''2025-01-10T08:00:00.000Z''\<rparr>"

definition example_row :: activity_row where
  "example_row =
     \<lparr>r_dateKey = ''2025-01-10'', r_employeeId = ''E'', r_timeSlot = ''10:00-11:00'',
      r_type = ''proof'', r_description = Some ''chapter 2 (Pages: 1 - 7, Total: 7)'',
      r_totalPages = None, r_pagesDone = Some ''7'',
      r_timestamp = Some ''2025-01-10T08:00:00.000Z''\<rparr>"

definition example_db :: db where
  "example_db =
     \<lparr>db_employees = [example_employee], db_activities = [example_row],
      db_deleted_activities = []\<rparr>"

definition example_world :: world where
  "example_world =
     \<lparr>employees = [example_employee],
      activities = set_cell Map.empty ''2025-01-10'' ''E'' ''10:00-11:00'' example_cell,
      currentDate = ''2025-01-10'',
      selectedEmployeeId = JStr ''E'',
      currentActionType = JStr ''leave'',
      server = example_db,
      online = (\<lambda>n. True),
      clock = (\<lambda>n. ''2025-01-10T09:00:00.000Z''),
      ids = (\<lambda>n. replicate (Suc n) CHR ''n''),
      sent = 0,
      employees_order = (\<lambda>n. sort_by_name),
      activities_order = (\<lambda>n rows. rows),
      other_request = (\<lambda>ident d. (False, d))\<rparr>"

text \<open>The same employee with the full-day marker in the first slot on top of that entry.\<close>

definition leave_world :: world where
  "leave_world =
     example_world
       \<lparr>activities :=
          set_cell (activities example_world) ''2025-01-10'' ''E'' ''9:00-10:00''
            (new_cell (JStr ''leave'') (JStr ''FULL_DAY_LEAVE'') ''2025-01-10T09:00:00.000Z'')\<rparr>"

text \<open>The example with \<open>Mark Permission\<close> chosen instead of \<open>Mark Leave\<close>.\<close>

definition permission_world :: world where
  "permission_world = example_world\<lparr>currentActionType := JStr ''permission''\<rparr>"

text \<open>
  Three forms: a range that runs backwards, the same with the full-day box checked, and
  the first ten slots with an empty reason.
\<close>

definition backwards_form :: leave_form where
  "backwards_form =
     \<lparr>fullDayCheck = False, startSlot = ''04:00-05:00'', endSlot = ''9:00-10:00'',
      permissionReason = ''x'', actionEmployeeId = ''E''\<rparr>"

definition full_day_backwards_form :: leave_form where
  "full_day_backwards_form = backwards_form\<lparr>fullDayCheck := True\<rparr>"

definition no_reason_form :: leave_form where
  "no_reason_form =
     \<lparr>fullDayCheck = False, startSlot = ''9:00-10:00'', endSlot = ''04:00-05:00'',
      permissionReason = '''', actionEmployeeId = ''E''\<rparr>"

text \<open>
  Pages 10 to 19 of proof-reading entered for the first slot, and the requests that write
  it and then a lunch break to the same key.
\<close>

definition proof_form :: activity_form where
  "proof_form =
     \<lparr>activityEmployeeId = ''E'', activityTimeSlot = ''9:00-10:00'', activityType = ''proof'',
      activityDescription = ''chapter 1'', startPageValue = ''10'', endPageValue = ''19'',
      datasetEmployeeId = JUndefined, datasetTimeSlot = JUndefined\<rparr>"

definition proof_body :: payload where
  "proof_body =
     \<lparr>p_dateKey = JStr ''2025-01-10'', p_employeeId = JStr ''E'', p_timeSlot = JStr ''9:00-10:00'',
      p_cell = activityData_raf proof_form ''2025-01-10T09:00:00.000Z''\<rparr>"

definition lunch_body :: payload where
  "lunch_body =
     \<lparr>p_dateKey = JStr ''2025-01-10'', p_employeeId = JStr ''E'', p_timeSlot = JStr ''9:00-10:00'',
      p_cell = new_cell (JStr ''lunch'') (JStr ''LUNCH'') ''2025-01-10T12:00:00.000Z''\<rparr>"






text \<open>
  The row the first of these requests stores, and the example with a second entry of the
  employee, on the next day.
\<close>

definition proof_row :: activity_row where
  "proof_row =
     \<lparr>r_dateKey = ''2025-01-10'', r_employeeId = ''E'', r_timeSlot = ''9:00-10:00'',
      r_type = ''proof'', r_description = Some ''chapter 1 (Pages: 10 - 19, Total: 10)'',
      r_totalPages = None, r_pagesDone = Some ''10'',
      r_timestamp = Some ''2025-01-10T09:00:00.000Z''\<rparr>"

definition two_rows_db :: db where
  "two_rows_db =
     example_db\<lparr>db_activities := [example_row, example_row\<lparr>r_dateKey := ''2025-01-11''\<rparr>]\<rparr>"



text \<open>
  The example before anything was entered, and the entry form with both page inputs
  left empty.
\<close>

definition fresh_world :: world where
  "fresh_world =
     example_world\<lparr>activities := Map.empty, server := example_db\<lparr>db_activities := []\<rparr>\<rparr>"

definition blank_form :: activity_form where
  "blank_form = proof_form\<lparr>startPageValue := '''', endPageValue := ''''\<rparr>"

text \<open>
  A server with three employees, the second a duplicate of the first by name and the
  third not in \<open>allowedEmployees\<close>, each of the last two with an entry; and a client that
  holds the roster, the duplicate after the first.
\<close>

definition anitha :: employee where
  "anitha =
     \<lparr>e_id = ''a1'', e_name = ''Anitha'', e_email = Some '''', e_createdAt = None,
      e_createdat = None\<rparr>"

definition anitha_again :: employee where
  "anitha_again =
     \<lparr>e_id = ''a2'', e_name = ''Anitha'', e_email = Some '''', e_createdAt = None,
      e_createdat = None\<rparr>"

definition zed :: employee where
  "zed =
     \<lparr>e_id = ''z'', e_name = ''Zed'', e_email = Some '''', e_createdAt = None,
      e_createdat = None\<rparr>"

definition roster_db :: db where
  "roster_db =
     \<lparr>db_employees = [anitha, anitha_again, zed],
      db_activities = [example_row\<lparr>r_employeeId := ''a2''\<rparr>, example_row\<lparr>r_employeeId := ''z''\<rparr>],
      db_deleted_activities = []\<rparr>"

definition roster_world :: world where
  "roster_world =
     example_world\<lparr>employees := [anitha, anitha_again, zed], activities := Map.empty,
                   server := roster_db\<rparr>"

section \<open>Reading cells\<close>

lemma getActivity_cell_at: "getActivity m e s dk = cell_at (activities m) dk e s"
  by (simp add: getActivity_def cell_at_def)

lemma cell_at_set_cell:
  "cell_at (set_cell m dk e s c) dk' e' s' =
     (if dk' = dk \<and> e' = e \<and> s' = s then Some c else cell_at m dk' e' s')"
  by (auto simp: cell_at_def set_cell_def Let_def split: option.splits)

lemma cell_at_del_cell:
  "cell_at (del_cell m dk e s) dk' e' s' =
     (if dk' = dk \<and> e' = e \<and> s' = s then None else cell_at m dk' e' s')"
  by (auto simp: cell_at_def del_cell_def split: option.splits)

lemma cell_at_fold_del_cell:
  "cell_at (fold (\<lambda>s m. del_cell m dk e s) ss m) dk' e' s' =
     (if dk' = dk \<and> e' = e \<and> s' \<in> set ss then None else cell_at m dk' e' s')"
  by (induction ss arbitrary: m) (auto simp: cell_at_del_cell)

lemma row_prop_camel_case:
  "row_prop row ''dateKey'' = JUndefined" "row_prop row ''employeeId'' = JUndefined"
  "row_prop row ''timeSlot'' = JUndefined" "row_prop row ''pagesDone'' = JUndefined"
  "row_prop row ''totalPages'' = JUndefined"
  by (simp_all add: row_prop_def)

lemma row_cell_columns:
  "row_cell row =
     \<lparr>type = JStr (r_type row), description = json_column (r_description row),
      startPage = JUndefined, endPage = JUndefined, pagesDone = JUndefined,
      totalPages = JUndefined, timestamp = json_column (r_timestamp row)\<rparr>"
  by (simp add: row_cell_def row_prop_def)

lemma cell_at_fold_one_key:
  "cell_at (fold (\<lambda>row m. set_cell m k1 k2 k3 (f row)) rows m) dk e s =
     (if rows \<noteq> [] \<and> dk = k1 \<and> e = k2 \<and> s = k3 then Some (f (last rows))
      else cell_at m dk e s)"
proof (induction rows arbitrary: m)
  case Nil
  then show ?case by simp
next
  case (Cons a rows)
  show ?case
    by (simp add: Cons.IH cell_at_set_cell)
qed

lemma cell_at_empty: "cell_at Map.empty dk e s = None"
  by (simp add: cell_at_def)

lemma cell_at_get_activities:
  "cell_at (get_activities answer None d) dk e s =
     (if answer (db_activities d) \<noteq> []
         \<and> dk = ''undefined'' \<and> e = ''undefined'' \<and> s = ''undefined''
      then Some (row_cell (last (answer (db_activities d))))
      else None)"
  by (simp add: get_activities_def row_prop_camel_case cell_at_fold_one_key cell_at_empty)

lemma slots_after_first: "map slot_at [1 .. int (length timeSlots) - 1] = map JStr (tl timeSlots)"
  by (simp add: timeSlots_def slot_at_def upto_rec1)

lemma example_activities:
  "activities example_world = set_cell Map.empty ''2025-01-10'' ''E'' ''10:00-11:00'' example_cell"
  by (simp add: example_world_def)

section \<open>Full-day leave and the totals\<close>

text \<open>
  C1. Whenever the cell at the first slot of the catalog, for an employee on the current
  date, has type \<open>leave\<close> and description \<open>FULL_DAY_LEAVE\<close>, the employee is on full-day
  leave and all three totals are zero, whatever the other slots hold.
\<close>

theorem full_day_leave_zero_totals:
  assumes "getActivity m employeeId (timeSlots ! 0) (currentDate m) = Some a"
    and "type a = JStr ''leave''"
    and "description a = JStr ''FULL_DAY_LEAVE''"
  shows "isEmployeeOnFullDayLeave m employeeId
       \<and> computeTotals m employeeId = \<lparr>proofTotal = 0, epubTotal = 0, calibrTotal = 0\<rparr>"
proof -
  have first: "timeSlots ! 0 = hd timeSlots"
    by (simp add: timeSlots_def)
  have leave: "isEmployeeOnFullDayLeave m employeeId"
    using assms by (simp add: isEmployeeOnFullDayLeave_def first)
  then show ?thesis
    by (simp add: computeTotals_def zero_totals_def)
qed

text \<open>
  In \<open>leave_world\<close> the second slot holds seven pages of proof-reading under the marker.
\<close>

theorem full_day_leave_zero_totals_witness:
  "getActivity leave_world ''E'' (timeSlots ! 0) (currentDate leave_world)
     = Some (new_cell (JStr ''leave'') (JStr ''FULL_DAY_LEAVE'') ''2025-01-10T09:00:00.000Z'')
   \<and> getActivity leave_world ''E'' ''10:00-11:00'' (currentDate leave_world)
     = Some example_cell
   \<and> type example_cell = JStr ''proof'' \<and> pagesDone example_cell = JNum 7
   \<and> isEmployeeOnFullDayLeave leave_world ''E''
   \<and> computeTotals leave_world ''E'' = \<lparr>proofTotal = 0, epubTotal = 0, calibrTotal = 0\<rparr>"
proof -
  have cd: "currentDate leave_world = ''2025-01-10''"
    by (simp add: leave_world_def example_world_def)
  have first: "getActivity leave_world ''E'' (timeSlots ! 0) (currentDate leave_world)
     = Some (new_cell (JStr ''leave'') (JStr ''FULL_DAY_LEAVE'') ''2025-01-10T09:00:00.000Z'')"
    by (simp add: getActivity_cell_at cd) (simp add: leave_world_def cell_at_set_cell timeSlots_def)
  have second: "getActivity leave_world ''E'' ''10:00-11:00'' (currentDate leave_world)
     = Some example_cell"
    by (simp add: getActivity_cell_at cd)
       (simp add: leave_world_def cell_at_set_cell example_activities)
  have filled: "type example_cell = JStr ''proof''" "pagesDone example_cell = JNum 7"
    by (simp_all add: example_cell_def)
  from full_day_leave_zero_totals [OF first] first second filled show ?thesis
    by (simp add: new_cell_def)
qed

section \<open>Single writes and deletes\<close>

lemma setActivity_ok:
  assumes "online w (sent w)"
    and "post_activities \<lparr>p_dateKey = JStr (currentDate w), p_employeeId = e, p_timeSlot = s,
           p_cell = c\<rparr> (server w) = Some d"
  shows "setActivity w e s c =
           w\<lparr>sent := Suc (sent w), server := d,
             activities := set_cell (activities w) (currentDate w) (js_string e) (js_string s) c\<rparr>"
  using assms by (simp add: setActivity_def fetch_post_activities_def Let_def)

lemma setActivity_rejected:
  assumes "\<not> online w (sent w) \<or>
     post_activities \<lparr>p_dateKey = JStr (currentDate w), p_employeeId = e, p_timeSlot = s,
           p_cell = c\<rparr> (server w) = None"
  shows "setActivity w e s c = w\<lparr>sent := Suc (sent w)\<rparr>"
  using assms by (auto simp: setActivity_def fetch_post_activities_def Let_def)

lemma clearActivity_ok:
  assumes "online w (sent w)"
  shows "clearActivity w e s =
           w\<lparr>sent := Suc (sent w),
             server := snd (delete_activities (now w) (JStr (currentDate w)) e s (server w)),
             activities := del_cell (activities w) (currentDate w) (js_string e) (js_string s)\<rparr>"
  using assms by (simp add: clearActivity_def fetch_delete_activities_def Let_def)

lemma db_activities_delete:
  "db_activities (snd (delete_activities t (JStr dk) (JStr e) (JStr s) d)) =
     filter (\<lambda>r. \<not> same_key r dk e s) (db_activities d)"
  by (simp add: delete_activities_def Let_def)

lemma clear_slots:
  assumes "\<forall>n. online w n"
  shows "let w' = fold (\<lambda>s x. clearActivity x (JStr e) s) (map JStr ss) w in
         currentDate w' = currentDate w \<and> online w' = online w \<and>
         activities w' = fold (\<lambda>s m. del_cell m (currentDate w) e s) ss (activities w) \<and>
         db_activities (server w') =
           filter (\<lambda>r. \<not> (r_dateKey r = currentDate w \<and> r_employeeId r = e \<and> r_timeSlot r \<in> set ss))
             (db_activities (server w))"
  using assms
proof (induction ss arbitrary: w)
  case Nil
  show ?case by simp
next
  case (Cons s ss)
  let ?w1 = "clearActivity w (JStr e) (JStr s)"
  have w1: "?w1 = w\<lparr>sent := Suc (sent w),
             server := snd (delete_activities (now w) (JStr (currentDate w)) (JStr e) (JStr s) (server w)),
             activities := del_cell (activities w) (currentDate w) e s\<rparr>"
    using Cons.prems by (simp add: clearActivity_ok)
  have on1: "\<forall>n. online ?w1 n"
    using Cons.prems by (simp add: w1)
  have step: "db_activities (server ?w1) = filter (\<lambda>r. \<not> same_key r (currentDate w) e s) (db_activities (server w))"
    by (simp add: w1 db_activities_delete)
  have cd: "currentDate ?w1 = currentDate w" "online ?w1 = online w"
       "activities ?w1 = del_cell (activities w) (currentDate w) e s"
    by (simp_all add: w1)
  from Cons.IH [OF on1] show ?case
    by (simp add: Let_def cd step same_key_def) (metis (mono_tags, lifting) filter_cong)
qed

lemma db_deleted_delete:
  "db_deleted_activities (snd (delete_activities t (JStr dk) (JStr e) (JStr s) d)) =
     db_deleted_activities d @ map (\<lambda>r. (r, t)) (filter (\<lambda>r. same_key r dk e s) (db_activities d))"
  by (simp add: delete_activities_def Let_def)

lemma clear_slots_archive:
  assumes "\<forall>n. online w n" and "distinct ss"
  shows "let w' = fold (\<lambda>s x. clearActivity x (JStr e) s) (map JStr ss) w in
         sent w' = sent w + length ss \<and>
         db_deleted_activities (server w') =
           db_deleted_activities (server w)
           @ concat (map (\<lambda>(s, n). map (\<lambda>r. (r, clock w n))
                           (filter (\<lambda>r. same_key r (currentDate w) e s) (db_activities (server w))))
                       (zip ss [sent w ..< sent w + length ss]))"
  using assms
proof (induction ss arbitrary: w)
  case Nil
  show ?case by simp
next
  case (Cons s ss)
  define w1 where "w1 = clearActivity w (JStr e) (JStr s)"
  let ?rows = "db_activities (server w)"
  let ?dk = "currentDate w"
  have w1: "w1 = w\<lparr>sent := Suc (sent w),
             server := snd (delete_activities (now w) (JStr ?dk) (JStr e) (JStr s) (server w)),
             activities := del_cell (activities w) ?dk e s\<rparr>"
    using Cons.prems(1) by (simp add: w1_def clearActivity_ok)
  have on1: "\<forall>n. online w1 n"
    using Cons.prems(1) by (simp add: w1)
  have f1: "sent w1 = Suc (sent w)" "clock w1 = clock w" "currentDate w1 = ?dk"
    "db_activities (server w1) = filter (\<lambda>r. \<not> same_key r ?dk e s) ?rows"
    "db_deleted_activities (server w1) =
       db_deleted_activities (server w)
       @ map (\<lambda>r. (r, clock w (sent w))) (filter (\<lambda>r. same_key r ?dk e s) ?rows)"
    by (simp_all add: w1 db_activities_delete db_deleted_delete now_def)
  have d: "distinct ss" and ns: "s \<notin> set ss"
    using Cons.prems(2) by simp_all
  have other: "filter (\<lambda>r. same_key r ?dk e s') (filter (\<lambda>r. \<not> same_key r ?dk e s) ?rows)
             = filter (\<lambda>r. same_key r ?dk e s') ?rows" if "s' \<in> set ss" for s'
    using that ns by (auto simp: same_key_def intro!: filter_cong)
  have same: "map (\<lambda>(s', n). map (\<lambda>r. (r, clock w n))
                 (filter (\<lambda>r. same_key r ?dk e s') (filter (\<lambda>r. \<not> same_key r ?dk e s) ?rows))) zs
            = map (\<lambda>(s', n). map (\<lambda>r. (r, clock w n))
                 (filter (\<lambda>r. same_key r ?dk e s') ?rows)) zs"
    if "fst ` set zs \<subseteq> set ss" for zs :: "(string \<times> nat) list"
    using that other by (intro map_cong) auto
  have zs: "fst ` set (zip ss [Suc (sent w) ..< Suc (sent w) + length ss]) \<subseteq> set ss"
    by (auto dest: set_zip_leftD)
  have upt: "[sent w ..< sent w + length (s # ss)]
           = sent w # [Suc (sent w) ..< Suc (sent w) + length ss]"
    using upt_conv_Cons [of "sent w" "sent w + length (s # ss)"] by simp
  have run: "fold (\<lambda>s x. clearActivity x (JStr e) s) (map JStr (s # ss)) w
           = fold (\<lambda>s x. clearActivity x (JStr e) s) (map JStr ss) w1"
    by (simp add: w1_def)
  from Cons.IH [OF on1 d]
  have a: "sent (fold (\<lambda>s x. clearActivity x (JStr e) s) (map JStr ss) w1) = sent w1 + length ss"
    and b: "db_deleted_activities
              (server (fold (\<lambda>s x. clearActivity x (JStr e) s) (map JStr ss) w1)) =
           db_deleted_activities (server w1)
           @ concat (map (\<lambda>(s, n). map (\<lambda>r. (r, clock w1 n))
                           (filter (\<lambda>r. same_key r (currentDate w1) e s)
                              (db_activities (server w1))))
                       (zip ss [sent w1 ..< sent w1 + length ss]))"
    unfolding Let_def by blast+
  have b': "db_deleted_activities
              (server (fold (\<lambda>s x. clearActivity x (JStr e) s) (map JStr ss) w1)) =
           (db_deleted_activities (server w)
            @ map (\<lambda>r. (r, clock w (sent w))) (filter (\<lambda>r. same_key r ?dk e s) ?rows))
           @ concat (map (\<lambda>(s, n). map (\<lambda>r. (r, clock w n))
                           (filter (\<lambda>r. same_key r ?dk e s) ?rows))
                       (zip ss [Suc (sent w) ..< Suc (sent w) + length ss]))"
    using b by (simp only: f1 same [OF zs])
  show ?case
    unfolding run upt Let_def using a b' by (simp add: f1(1))
qed


lemma upsert_same_key:
  assumes "r_dateKey new = dk" "r_employeeId new = e" "r_timeSlot new = s"
  shows "set (filter (\<lambda>r. same_key r dk e s) (upsert new rows)) = {new}"
proof (cases "list_ex (\<lambda>r. same_key r dk e s) rows")
  case True
  then obtain r0 where r0: "r0 \<in> set rows" "same_key r0 dk e s"
    by (auto simp: list_ex_iff)
  have upd: "\<And>r. same_key r dk e s \<Longrightarrow>
      r\<lparr>r_type := r_type new, r_description := r_description new,
        r_totalPages := r_totalPages new, r_pagesDone := r_pagesDone new,
        r_timestamp := r_timestamp new\<rparr> = new"
    using assms by (simp add: same_key_def)
  show ?thesis
    using True r0 assms
    by (auto simp: upsert_def upd same_key_def image_iff split: if_splits) 
next
  case False
  then show ?thesis
    using assms by (auto simp: upsert_def list_ex_iff same_key_def)
qed

lemma upsert_other_key:
  assumes "\<not> same_key new dk e s"
  shows "filter (\<lambda>r. same_key r dk e s) (upsert new rows) = filter (\<lambda>r. same_key r dk e s) rows"
proof -
  have "filter (\<lambda>r. same_key r dk e s)
          (map (\<lambda>r. if same_key r (r_dateKey new) (r_employeeId new) (r_timeSlot new)
                     then r\<lparr>r_type := r_type new, r_description := r_description new,
                            r_totalPages := r_totalPages new, r_pagesDone := r_pagesDone new,
                            r_timestamp := r_timestamp new\<rparr>
                     else r) rows) = filter (\<lambda>r. same_key r dk e s) rows"
    using assms by (induction rows) (auto simp: same_key_def)
  then show ?thesis
    using assms by (simp add: upsert_def)
qed

section \<open>Marking a full day of leave\<close>

lemma first_slot_not_later: "hd timeSlots \<notin> set (tl timeSlots)"
  by (simp add: timeSlots_def)

lemma slot_at_0: "slot_at 0 = JStr (hd timeSlots)"
  by (simp add: slot_at_def timeSlots_def)

lemma post_activities_strings:
  assumes "post_activities \<lparr>p_dateKey = JStr dk, p_employeeId = JStr e, p_timeSlot = JStr s,
              p_cell = c\<rparr> d = Some d'"
  shows "\<exists>ty. sql_param (type c) = Some ty \<and>
           d' = d\<lparr>db_activities :=
                  upsert \<lparr>r_dateKey = dk, r_employeeId = e, r_timeSlot = s, r_type = ty,
                          r_description = sql_param (description c),
                          r_totalPages = sql_param (totalPages c),
                          r_pagesDone = sql_param (pagesDone c),
                          r_timestamp = sql_param (timestamp c)\<rparr> (db_activities d)\<rparr>"
  using assms
  by (auto simp: post_activities_def Let_def split: option.splits if_splits)

lemma full_day_leave_state:
  assumes on: "\<forall>n. online w n"
    and acc: "post_activities
               \<lparr>p_dateKey = JStr (currentDate w), p_employeeId = JStr e,
                p_timeSlot = JStr (hd timeSlots),
                p_cell = new_cell (JStr ''leave'') (JStr ''FULL_DAY_LEAVE'') (now w)\<rparr>
               (server w) = Some d"
  shows "currentDate (executeFullDayLeave w (JStr e)) = currentDate w"
    and "activities (executeFullDayLeave w (JStr e)) =
           fold (\<lambda>s m. del_cell m (currentDate w) e s) (tl timeSlots)
             (set_cell (activities w) (currentDate w) e (hd timeSlots)
                (new_cell (JStr ''leave'') (JStr ''FULL_DAY_LEAVE'') (now w)))"
    and "db_activities (server (executeFullDayLeave w (JStr e))) =
           filter (\<lambda>r. \<not> (r_dateKey r = currentDate w \<and> r_employeeId r = e
                             \<and> r_timeSlot r \<in> set (tl timeSlots)))
             (upsert (marker_row (currentDate w) e (now w)) (db_activities (server w)))"
    and "sent (executeFullDayLeave w (JStr e)) = sent w + length timeSlots"
    and "db_deleted_activities (server (executeFullDayLeave w (JStr e))) =
           db_deleted_activities (server w)
           @ concat (map (\<lambda>(s, n). map (\<lambda>r. (r, clock w n))
                           (filter (\<lambda>r. same_key r (currentDate w) e s) (db_activities (server w))))
                       (zip (tl timeSlots) [Suc (sent w) ..< sent w + length timeSlots]))"
proof -
  let ?c = "new_cell (JStr ''leave'') (JStr ''FULL_DAY_LEAVE'') (now w)"
  let ?dk = "currentDate w"
  define w1 where "w1 = setActivity w (JStr e) (slot_at 0) ?c"
  have w1: "w1 = w\<lparr>sent := Suc (sent w), server := d,
             activities := set_cell (activities w) ?dk e (hd timeSlots) ?c\<rparr>"
    using on acc by (simp add: w1_def setActivity_ok slot_at_0)
  from post_activities_strings [OF acc]
  have d: "db_activities d = upsert (marker_row ?dk e (now w)) (db_activities (server w))"
    and dd: "db_deleted_activities d = db_deleted_activities (server w)"
    by (auto simp: new_cell_def marker_row_def)
  have on1: "\<forall>n. online w1 n"
    using on by (simp add: w1)
  have run: "executeFullDayLeave w (JStr e) =
               fold (\<lambda>s x. clearActivity x (JStr e) s) (map JStr (tl timeSlots)) w1"
    by (simp add: executeFullDayLeave_def Let_def fold_map comp_def w1_def
        flip: slots_after_first)
  have f1: "currentDate w1 = ?dk" "clock w1 = clock w" "sent w1 = Suc (sent w)"
    "activities w1 = set_cell (activities w) ?dk e (hd timeSlots) ?c"
    "db_activities (server w1) = upsert (marker_row ?dk e (now w)) (db_activities (server w))"
    "db_deleted_activities (server w1) = db_deleted_activities (server w)"
    by (simp_all add: w1 d dd)
  from clear_slots [OF on1, of e "tl timeSlots"]
  show "currentDate (executeFullDayLeave w (JStr e)) = currentDate w"
    and "activities (executeFullDayLeave w (JStr e)) =
           fold (\<lambda>s m. del_cell m (currentDate w) e s) (tl timeSlots)
             (set_cell (activities w) (currentDate w) e (hd timeSlots) ?c)"
    and "db_activities (server (executeFullDayLeave w (JStr e))) =
           filter (\<lambda>r. \<not> (r_dateKey r = currentDate w \<and> r_employeeId r = e
                             \<and> r_timeSlot r \<in> set (tl timeSlots)))
             (upsert (marker_row (currentDate w) e (now w)) (db_activities (server w)))"
    unfolding run by (simp_all add: Let_def f1)
  have dist: "distinct (tl timeSlots)"
    by (simp add: timeSlots_def)
  have len: "Suc (sent w) + length (tl timeSlots) = sent w + length timeSlots"
    by (simp add: timeSlots_def)
  have other: "filter (\<lambda>r. same_key r ?dk e s)
                 (upsert (marker_row ?dk e (now w)) (db_activities (server w)))
             = filter (\<lambda>r. same_key r ?dk e s) (db_activities (server w))"
    if "s \<in> set (tl timeSlots)" for s
  proof (rule upsert_other_key)
    from that first_slot_not_later have "s \<noteq> hd timeSlots"
      by auto
    then show "\<not> same_key (marker_row ?dk e (now w)) ?dk e s"
      by (simp add: same_key_def marker_row_def)
  qed
  have same: "map (\<lambda>(s, n). map (\<lambda>r. (r, clock w n))
                 (filter (\<lambda>r. same_key r ?dk e s)
                    (upsert (marker_row ?dk e (now w)) (db_activities (server w))))) zs
            = map (\<lambda>(s, n). map (\<lambda>r. (r, clock w n))
                 (filter (\<lambda>r. same_key r ?dk e s) (db_activities (server w)))) zs"
    if "fst ` set zs \<subseteq> set (tl timeSlots)" for zs :: "(string \<times> nat) list"
    using that other by (intro map_cong) auto
  have zs: "fst ` set (zip (tl timeSlots) [Suc (sent w) ..< sent w + length timeSlots])
          \<subseteq> set (tl timeSlots)"
    by (auto dest: set_zip_leftD)
  from clear_slots_archive [OF on1 dist, of e]
  have a: "sent (executeFullDayLeave w (JStr e)) = sent w1 + length (tl timeSlots)"
    and b: "db_deleted_activities (server (executeFullDayLeave w (JStr e))) =
           db_deleted_activities (server w1)
           @ concat (map (\<lambda>(s, n). map (\<lambda>r. (r, clock w1 n))
                           (filter (\<lambda>r. same_key r (currentDate w1) e s)
                              (db_activities (server w1))))
                       (zip (tl timeSlots) [sent w1 ..< sent w1 + length (tl timeSlots)]))"
    unfolding run Let_def by blast+
  show "sent (executeFullDayLeave w (JStr e)) = sent w + length timeSlots"
    using a by (simp only: f1 len)
  show "db_deleted_activities (server (executeFullDayLeave w (JStr e))) =
           db_deleted_activities (server w)
           @ concat (map (\<lambda>(s, n). map (\<lambda>r. (r, clock w n))
                           (filter (\<lambda>r. same_key r (currentDate w) e s) (db_activities (server w))))
                       (zip (tl timeSlots) [Suc (sent w) ..< sent w + length timeSlots]))"
    using b by (simp only: f1 len same [OF zs])
qed

lemma executeFullDayLeave_raf_eq:
  "executeFullDayLeave_raf w e = (executeFullDayLeave w e)\<lparr>selectedEmployeeId := JNull\<rparr>"
  by (simp add: executeFullDayLeave_raf_def executeFullDayLeave_def Let_def
      closeEmployeeActionModal_raf_def)

text \<open>
  C2. When every request is answered and the server accepts the write of the marker,
  \<open>executeFullDayLeave\<close> (in either manager) leaves the marker cell, of type \<open>leave\<close> and
  description \<open>FULL_DAY_LEAVE\<close>, at the first slot, and no cell at any other slot of the
  catalog, for that employee on the current date: \<open>getActivity\<close> returns the marker at
  the first slot and nothing at the others, and the table holds the marker row at the
  first slot and no row at the others, so that invariant I2 holds of the stored rows.
  Nothing is assumed about what the slots held before. The marker is written first, with
  request number \<open>sent w\<close>, and then the other twelve slots are deleted in the order of
  the catalog, one request each: the archive \<open>deleted_activities\<close> grows by the rows that
  were there, slot after slot, each with the time of its request.
\<close>

theorem full_day_leave_marks_and_clears:
  assumes on: "\<forall>n. online w n"
    and acc: "post_activities
               \<lparr>p_dateKey = JStr (currentDate w), p_employeeId = JStr e,
                p_timeSlot = JStr (hd timeSlots),
                p_cell = new_cell (JStr ''leave'') (JStr ''FULL_DAY_LEAVE'') (now w)\<rparr>
               (server w) \<noteq> None"
    and run: "w' = executeFullDayLeave w (JStr e) \<or> w' = executeFullDayLeave_raf w (JStr e)"
  shows "(\<exists>a. getActivity w' e (hd timeSlots) (currentDate w') = Some a
             \<and> type a = JStr ''leave'' \<and> description a = JStr ''FULL_DAY_LEAVE'')
       \<and> (\<forall>s \<in> set (tl timeSlots). getActivity w' e s (currentDate w') = None)
       \<and> set (filter (\<lambda>r. same_key r (currentDate w') e (hd timeSlots))
                (db_activities (server w')))
           = {marker_row (currentDate w) e (now w)}
       \<and> (\<forall>s \<in> set (tl timeSlots).
             filter (\<lambda>r. same_key r (currentDate w') e s) (db_activities (server w')) = [])
       \<and> inv_I2 (server w') (currentDate w') e
       \<and> sent w' = sent w + length timeSlots
       \<and> db_deleted_activities (server w') =
           db_deleted_activities (server w)
           @ concat (map (\<lambda>(s, n). map (\<lambda>r. (r, clock w n))
                           (filter (\<lambda>r. same_key r (currentDate w) e s) (db_activities (server w))))
                       (zip (tl timeSlots) [Suc (sent w) ..< sent w + length timeSlots]))"
proof -
  from acc obtain d where d: "post_activities
               \<lparr>p_dateKey = JStr (currentDate w), p_employeeId = JStr e,
                p_timeSlot = JStr (hd timeSlots),
                p_cell = new_cell (JStr ''leave'') (JStr ''FULL_DAY_LEAVE'') (now w)\<rparr>
               (server w) = Some d"
    by auto
  let ?v = "executeFullDayLeave w (JStr e)"
  let ?dk = "currentDate w"
  let ?m = "marker_row ?dk e (now w)"
  note st = full_day_leave_state [OF on d]
  have same: "currentDate w' = ?dk" "activities w' = activities ?v" "server w' = server ?v"
    "sent w' = sent ?v"
    using run st(1) by (auto simp: executeFullDayLeave_raf_eq)
  have local_first: "getActivity w' e (hd timeSlots) (currentDate w')
      = Some (new_cell (JStr ''leave'') (JStr ''FULL_DAY_LEAVE'') (now w))"
    by (simp add: getActivity_cell_at same st(2) cell_at_fold_del_cell cell_at_set_cell
        first_slot_not_later)
  have local_rest: "\<forall>s \<in> set (tl timeSlots). getActivity w' e s (currentDate w') = None"
    by (simp add: getActivity_cell_at same st(2) cell_at_fold_del_cell)
  let ?rows = "upsert ?m (db_activities (server w))"
  let ?Q = "\<lambda>r. \<not> (r_dateKey r = ?dk \<and> r_employeeId r = e \<and> r_timeSlot r \<in> set (tl timeSlots))"
  have f_first: "filter (\<lambda>r. same_key r ?dk e (hd timeSlots)) (filter ?Q ?rows)
                   = filter (\<lambda>r. same_key r ?dk e (hd timeSlots)) ?rows"
    using first_slot_not_later by (auto simp: same_key_def intro!: filter_cong)
  have m: "set (filter (\<lambda>r. same_key r ?dk e (hd timeSlots)) ?rows) = {?m}"
    by (rule upsert_same_key) (simp_all add: marker_row_def)
  have srv_first: "set (filter (\<lambda>r. same_key r (currentDate w') e (hd timeSlots))
                     (db_activities (server w'))) = {?m}"
    by (simp only: same st(3) f_first m)
  have f_rest: "\<And>s. s \<in> set (tl timeSlots) \<Longrightarrow>
      filter (\<lambda>r. same_key r ?dk e s) (filter ?Q ?rows) = []"
    by (auto simp: same_key_def filter_empty_conv)
  have srv_rest: "\<forall>s \<in> set (tl timeSlots).
      filter (\<lambda>r. same_key r (currentDate w') e s) (db_activities (server w')) = []"
    using f_rest by (simp only: same st(3)) blast
  have "\<not> list_ex (\<lambda>r. r_dateKey r = ?dk \<and> r_employeeId r = e
                        \<and> r_timeSlot r \<in> set (tl timeSlots)) (filter ?Q ?rows)"
    by (simp add: list_ex_iff)
  then have i2: "inv_I2 (server w') (currentDate w') e"
    by (simp only: inv_I2_def same st(3)) blast
  have cnt: "sent w' = sent w + length timeSlots"
    by (simp only: same st(4))
  have arch: "db_deleted_activities (server w') =
           db_deleted_activities (server w)
           @ concat (map (\<lambda>(s, n). map (\<lambda>r. (r, clock w n))
                           (filter (\<lambda>r. same_key r (currentDate w) e s) (db_activities (server w))))
                       (zip (tl timeSlots) [Suc (sent w) ..< sent w + length timeSlots]))"
    by (simp only: same st(5))
  have first: "\<exists>a. getActivity w' e (hd timeSlots) (currentDate w') = Some a
             \<and> type a = JStr ''leave'' \<and> description a = JStr ''FULL_DAY_LEAVE''"
    using local_first by (simp add: new_cell_def)
  show ?thesis
    using first local_rest srv_first srv_rest i2 cnt arch by (intro conjI) assumption+
qed

text \<open>
  In \<open>example_world\<close> the second slot is filled before and empty after, in the client
  and in the table, and its row is in the archive.
\<close>

theorem full_day_leave_marks_and_clears_witness:
  "(\<forall>n. online example_world n)
   \<and> post_activities
       \<lparr>p_dateKey = JStr (currentDate example_world), p_employeeId = JStr ''E'',
        p_timeSlot = JStr (hd timeSlots),
        p_cell = new_cell (JStr ''leave'') (JStr ''FULL_DAY_LEAVE'') (now example_world)\<rparr>
       (server example_world) \<noteq> None
   \<and> getActivity example_world ''E'' ''10:00-11:00'' (currentDate example_world) \<noteq> None
   \<and> db_activities (server example_world) = [example_row]
   \<and> (\<exists>a. getActivity (executeFullDayLeave example_world (JStr ''E'')) ''E'' (hd timeSlots)
              (currentDate (executeFullDayLeave example_world (JStr ''E''))) = Some a
            \<and> type a = JStr ''leave'' \<and> description a = JStr ''FULL_DAY_LEAVE'')
   \<and> getActivity (executeFullDayLeave example_world (JStr ''E'')) ''E'' ''10:00-11:00''
        (currentDate (executeFullDayLeave example_world (JStr ''E''))) = None
   \<and> filter (\<lambda>r. same_key r ''2025-01-10'' ''E'' ''10:00-11:00'')
        (db_activities (server (executeFullDayLeave_raf example_world (JStr ''E'')))) = []
   \<and> db_deleted_activities (server (executeFullDayLeave example_world (JStr ''E'')))
        = [(example_row, ''2025-01-10T09:00:00.000Z'')]"
proof -
  have on: "\<forall>n. online example_world n"
    by (simp add: example_world_def)
  have acc: "post_activities
       \<lparr>p_dateKey = JStr (currentDate example_world), p_employeeId = JStr ''E'',
        p_timeSlot = JStr (hd timeSlots),
        p_cell = new_cell (JStr ''leave'') (JStr ''FULL_DAY_LEAVE'') (now example_world)\<rparr>
       (server example_world) \<noteq> None"
    by (simp add: post_activities_def example_world_def example_db_def example_employee_def
        new_cell_def now_def timeSlots_def)
  have before: "getActivity example_world ''E'' ''10:00-11:00'' (currentDate example_world) \<noteq> None"
    by (simp add: getActivity_def example_world_def set_cell_def)
  have rows: "db_activities (server example_world) = [example_row]"
    by (simp add: example_world_def example_db_def)
  have slot: "''10:00-11:00'' \<in> set (tl timeSlots)"
    by (simp add: timeSlots_def)
  have cd: "currentDate example_world = ''2025-01-10''"
    by (simp add: example_world_def)
  have arch: "db_deleted_activities (server example_world)
           @ concat (map (\<lambda>(s, n). map (\<lambda>r. (r, clock example_world n))
                           (filter (\<lambda>r. same_key r (currentDate example_world) ''E'' s)
                              (db_activities (server example_world))))
                       (zip (tl timeSlots)
                          [Suc (sent example_world) ..< sent example_world + length timeSlots]))
         = [(example_row, ''2025-01-10T09:00:00.000Z'')]"
    by (simp add: example_world_def example_db_def example_row_def timeSlots_def same_key_def
        upt_conv_Cons)
  note js = full_day_leave_marks_and_clears [OF on acc,
      of "executeFullDayLeave example_world (JStr ''E'')"]
  note raf = full_day_leave_marks_and_clears [OF on acc,
      of "executeFullDayLeave_raf example_world (JStr ''E'')"]
  have a: "\<exists>a. getActivity (executeFullDayLeave example_world (JStr ''E'')) ''E'' (hd timeSlots)
              (currentDate (executeFullDayLeave example_world (JStr ''E''))) = Some a
            \<and> type a = JStr ''leave'' \<and> description a = JStr ''FULL_DAY_LEAVE''"
    using js by blast
  have b: "getActivity (executeFullDayLeave example_world (JStr ''E'')) ''E'' ''10:00-11:00''
        (currentDate (executeFullDayLeave example_world (JStr ''E''))) = None"
    using js slot by blast
  from acc obtain d0 where "post_activities
       \<lparr>p_dateKey = JStr (currentDate example_world), p_employeeId = JStr ''E'',
        p_timeSlot = JStr (hd timeSlots),
        p_cell = new_cell (JStr ''leave'') (JStr ''FULL_DAY_LEAVE'') (now example_world)\<rparr>
       (server example_world) = Some d0"
    by auto
  from full_day_leave_state(1) [OF on this]
  have "currentDate (executeFullDayLeave_raf example_world (JStr ''E'')) = ''2025-01-10''"
    by (simp add: executeFullDayLeave_raf_eq cd)
  then have c: "filter (\<lambda>r. same_key r ''2025-01-10'' ''E'' ''10:00-11:00'')
        (db_activities (server (executeFullDayLeave_raf example_world (JStr ''E'')))) = []"
    using raf slot by auto
  have d: "db_deleted_activities (server (executeFullDayLeave example_world (JStr ''E'')))
        = [(example_row, ''2025-01-10T09:00:00.000Z'')]"
    using js arch by simp
  show ?thesis
    using on acc before rows a b c d by (intro conjI) assumption+
qed


section \<open>Leave and permission over a range\<close>

lemma example_accepts_marker:
  "post_activities
     \<lparr>p_dateKey = JStr (currentDate example_world), p_employeeId = JStr ''E'',
      p_timeSlot = JStr (hd timeSlots),
      p_cell = new_cell (JStr ''leave'') (JStr ''FULL_DAY_LEAVE'') (now example_world)\<rparr>
     (server example_world) \<noteq> None"
  by (simp add: post_activities_def example_world_def example_db_def example_employee_def
      new_cell_def now_def timeSlots_def)

lemma range_rejected:
  assumes "indexOf timeSlots (startSlot f) > indexOf timeSlots (endSlot f)"
    and "\<not> (currentActionType w = JStr ''leave'' \<and> fullDayCheck f)"
  shows "handleLeavePermissionSubmit w f = (Some InvalidRange, w)"
  using assms by (auto simp: handleLeavePermissionSubmit_def Let_def)

lemma range_rejected_raf:
  assumes "indexOf timeSlots (startSlot f) > indexOf timeSlots (endSlot f)"
    and "truthy (selectedEmployeeId w)"
  shows "handleLeavePermissionSubmit_raf w f = (Some InvalidRange, w)"
  using assms by (simp add: handleLeavePermissionSubmit_raf_def Let_def)

lemma reason_required_raf:
  assumes "truthy (selectedEmployeeId w)"
    and "currentActionType w = JStr ''permission''"
    and "trim (permissionReason f) = []"
    and "indexOf timeSlots (startSlot f) \<le> indexOf timeSlots (endSlot f)"
  shows "handleLeavePermissionSubmit_raf w f = (Some MissingReason, w)"
  using assms by (simp add: handleLeavePermissionSubmit_raf_def Let_def)

lemma full_day_bypasses_range:
  assumes "currentActionType w = JStr ''leave''" and "fullDayCheck f"
  shows "handleLeavePermissionSubmit w f = (None, executeFullDayLeave w (selectedEmployeeId w))"
  using assms by (simp add: handleLeavePermissionSubmit_def Let_def)

lemma backwards_indices:
  "indexOf timeSlots (startSlot backwards_form) = 9"
  "indexOf timeSlots (endSlot backwards_form) = 0"
  by (simp_all add: backwards_form_def indexOf_def timeSlots_def)

lemma sent_setActivity: "sent (setActivity w e s c) = Suc (sent w)"
  by (simp add: setActivity_def fetch_post_activities_def Let_def split: option.splits)

lemma sent_mark_slots_list:
  "sent (fold (\<lambda>i w'. setActivity w' e (slot_at i) (new_cell ty (JStr d) (now w'))) is w)
     = sent w + length is"
  by (induction "is" arbitrary: w) (simp_all add: sent_setActivity)

lemma sent_mark_slots: "sent (mark_slots w e ty d i j) = sent w + length [i..j]"
  by (simp add: mark_slots_def sent_mark_slots_list)

lemma no_reason_indices:
  "indexOf timeSlots (startSlot no_reason_form) = 0"
  "indexOf timeSlots (endSlot no_reason_form) = 9"
  by (simp_all add: no_reason_form_def indexOf_def timeSlots_def)

lemma no_reason_run:
  "handleLeavePermissionSubmit permission_world no_reason_form =
     (None, mark_slots permission_world (JStr ''E'') (JStr ''permission'') [] 0 9)"
  by (simp add: handleLeavePermissionSubmit_def Let_def no_reason_indices)
     (simp add: permission_world_def example_world_def no_reason_form_def trim_def)

lemma slot_at_catalog:
  assumes "0 \<le> i" "i < 13"
  shows "slot_at i = JStr (timeSlots ! nat i)" "length (timeSlots ! nat i) \<le> 255"
proof -
  have len: "length timeSlots = 13"
    by (simp add: timeSlots_def)
  show "slot_at i = JStr (timeSlots ! nat i)"
    using assms by (simp add: slot_at_def len)
  have "\<forall>s \<in> set timeSlots. length s \<le> 255"
    by (simp add: timeSlots_def)
  moreover have "timeSlots ! nat i \<in> set timeSlots"
    using assms by (simp add: len)
  ultimately show "length (timeSlots ! nat i) \<le> 255"
    by blast
qed

lemma mark_one_slot:
  assumes acc: "accepting w e" and i: "0 \<le> i" "i < 13" and t: "length t \<le> 50"
  shows "\<exists>d. setActivity w (JStr e) (slot_at i) (new_cell (JStr t) (JStr desc) (now w)) =
           w\<lparr>sent := Suc (sent w), server := d,
             activities := set_cell (activities w) (currentDate w) e (timeSlots ! nat i)
                             (new_cell (JStr t) (JStr desc) (now w))\<rparr>
         \<and> db_employees d = db_employees (server w)"
proof -
  let ?c = "new_cell (JStr t) (JStr desc) (now w)"
  let ?body = "\<lparr>p_dateKey = JStr (currentDate w), p_employeeId = JStr e,
                 p_timeSlot = JStr (timeSlots ! nat i), p_cell = ?c\<rparr>"
  have "post_activities ?body (server w) \<noteq> None"
    using acc t slot_at_catalog(2) [OF i]
    by (simp add: post_activities_def accepting_def new_cell_def now_def)
  then obtain d where d: "post_activities ?body (server w) = Some d"
    by auto
  have emp: "db_employees d = db_employees (server w)"
    using post_activities_strings [OF d] by auto
  have on: "online w (sent w)"
    using acc by (simp add: accepting_def)
  show ?thesis
    using setActivity_ok [OF on d] emp
    by (intro exI [of _ d]) (simp add: slot_at_catalog(1) [OF i])
qed

lemma mark_slots_list:
  fixes e t desc
  defines "run \<equiv> fold (\<lambda>i x. setActivity x (JStr e) (slot_at i)
                                 (new_cell (JStr t) (JStr desc) (now x)))"
  assumes "accepting w e" and "\<forall>i \<in> set is. 0 \<le> i \<and> i < 13" and "length t \<le> 50"
  shows "accepting (run is w) e \<and> currentDate (run is w) = currentDate w
            \<and> sent (run is w) = sent w + length is
            \<and> (\<forall>i \<in> set is. \<exists>ts. cell_at (activities (run is w)) (currentDate w) e (timeSlots ! nat i)
                                      = Some (new_cell (JStr t) (JStr desc) ts))
            \<and> (\<forall>dk e' s. (dk, e', s) \<notin> (\<lambda>i. (currentDate w, e, timeSlots ! nat i)) ` set is
                   \<longrightarrow> cell_at (activities (run is w)) dk e' s = cell_at (activities w) dk e' s)"
  using assms(2-)
proof (induction "is" arbitrary: w)
  case Nil
  then show ?case by (simp add: run_def)
next
  case (Cons i "is")
  let ?c = "new_cell (JStr t) (JStr desc) (now w)"
  let ?w1 = "setActivity w (JStr e) (slot_at i) ?c"
  have i: "0 \<le> i" "i < 13"
    using Cons.prems(2) by simp_all
  from mark_one_slot [OF Cons.prems(1) i Cons.prems(3), of desc]
  obtain d where w1: "?w1 = w\<lparr>sent := Suc (sent w), server := d,
             activities := set_cell (activities w) (currentDate w) e (timeSlots ! nat i) ?c\<rparr>"
    and emp: "db_employees d = db_employees (server w)"
    by blast
  have acc1: "accepting ?w1 e"
    using Cons.prems(1) by (simp add: w1 accepting_def emp)
  have rest: "\<forall>i \<in> set is. 0 \<le> i \<and> i < 13"
    using Cons.prems(2) by simp
  have f1: "currentDate ?w1 = currentDate w" "sent ?w1 = Suc (sent w)"
    "activities ?w1 = set_cell (activities w) (currentDate w) e (timeSlots ! nat i) ?c"
    by (simp_all add: w1)
  let ?w' = "run is ?w1"
  have ih: "accepting ?w' e" "currentDate ?w' = currentDate w" "sent ?w' = Suc (sent w) + length is"
    "\<forall>j \<in> set is. \<exists>ts. cell_at (activities ?w') (currentDate w) e (timeSlots ! nat j)
                                      = Some (new_cell (JStr t) (JStr desc) ts)"
    "\<forall>dk e' s. (dk, e', s) \<notin> (\<lambda>j. (currentDate w, e, timeSlots ! nat j)) ` set is
                   \<longrightarrow> cell_at (activities ?w') dk e' s = cell_at (activities ?w1) dk e' s"
    using Cons.IH [OF acc1 rest Cons.prems(3)] unfolding f1(1,2) by blast+
  have here: "\<exists>ts. cell_at (activities ?w') (currentDate w) e (timeSlots ! nat i)
                 = Some (new_cell (JStr t) (JStr desc) ts)"
  proof (cases "(currentDate w, e, timeSlots ! nat i)
                  \<in> (\<lambda>j. (currentDate w, e, timeSlots ! nat j)) ` set is")
    case True
    then obtain j where "j \<in> set is" "timeSlots ! nat i = timeSlots ! nat j"
      by auto
    with ih(4) show ?thesis by auto
  next
    case False
    with ih(5) have "cell_at (activities ?w') (currentDate w) e (timeSlots ! nat i)
        = cell_at (activities ?w1) (currentDate w) e (timeSlots ! nat i)"
      by blast
    then have "cell_at (activities ?w') (currentDate w) e (timeSlots ! nat i) = Some ?c"
      by (simp add: f1 cell_at_set_cell)
    then show ?thesis
      by (rule exI)
  qed
  have others: "\<forall>dk e' s. (dk, e', s) \<notin> (\<lambda>j. (currentDate w, e, timeSlots ! nat j)) ` set (i # is)
                   \<longrightarrow> cell_at (activities ?w') dk e' s = cell_at (activities w) dk e' s"
  proof (intro allI impI)
    fix dk e' s
    assume out: "(dk, e', s) \<notin> (\<lambda>j. (currentDate w, e, timeSlots ! nat j)) ` set (i # is)"
    then have "(dk, e', s) \<notin> (\<lambda>j. (currentDate w, e, timeSlots ! nat j)) ` set is"
      and ne: "(dk, e', s) \<noteq> (currentDate w, e, timeSlots ! nat i)"
      by auto
    with ih(5) have "cell_at (activities ?w') dk e' s = cell_at (activities ?w1) dk e' s"
      by blast
    also have "\<dots> = cell_at (activities w) dk e' s"
      using ne by (auto simp: f1 cell_at_set_cell)
    finally show "cell_at (activities ?w') dk e' s = cell_at (activities w) dk e' s" .
  qed
  have run: "run (i # is) w = ?w'"
    by (simp add: run_def)
  show ?case
    unfolding run
    using ih(1,2,3,4) here others by auto
qed

lemma mark_slots_range:
  assumes "accepting w e" and "0 \<le> i" and "j < 13" and "length t \<le> 50"
  shows "sent (mark_slots w (JStr e) (JStr t) desc i j) = sent w + length [i..j]"
    and "\<forall>k \<in> {i..j}. \<exists>ts. getActivity (mark_slots w (JStr e) (JStr t) desc i j) e
                               (timeSlots ! nat k) (currentDate w)
                             = Some (new_cell (JStr t) (JStr desc) ts)"
proof -
  have "\<forall>k \<in> set [i..j]. 0 \<le> k \<and> k < 13"
    using assms(2,3) by auto
  from mark_slots_list [OF assms(1) this assms(4), of desc]
  show "sent (mark_slots w (JStr e) (JStr t) desc i j) = sent w + length [i..j]"
    and "\<forall>k \<in> {i..j}. \<exists>ts. getActivity (mark_slots w (JStr e) (JStr t) desc i j) e
                               (timeSlots ! nat k) (currentDate w)
                             = Some (new_cell (JStr t) (JStr desc) ts)"
    by (simp_all add: mark_slots_def getActivity_cell_at)
qed

lemma example_world_accepting: "accepting example_world ''E''"
  by (simp add: accepting_def example_world_def example_db_def example_employee_def)

lemma permission_world_accepting: "accepting permission_world ''E''"
  using example_world_accepting by (simp add: accepting_def permission_world_def)

text \<open>
  C4. When the catalog index of the start slot exceeds that of the end slot, the request
  is rejected as an invalid range and the world is unchanged: nothing is sent and no cell
  changes. This holds in \<open>src/script.js\<close> for every request that is not a full-day
  leave, and in the second manager for every request with an employee selected.
\<close>

theorem invalid_range_rejected:
  assumes "indexOf timeSlots (startSlot f) > indexOf timeSlots (endSlot f)"
  shows "(\<not> (currentActionType w = JStr ''leave'' \<and> fullDayCheck f)
            \<longrightarrow> handleLeavePermissionSubmit w f = (Some InvalidRange, w))
       \<and> (truthy (selectedEmployeeId w)
            \<longrightarrow> handleLeavePermissionSubmit_raf w f = (Some InvalidRange, w))"
  using assms range_rejected range_rejected_raf by blast

theorem invalid_range_rejected_witness:
  "indexOf timeSlots (startSlot backwards_form) > indexOf timeSlots (endSlot backwards_form)
   \<and> \<not> (currentActionType example_world = JStr ''leave'' \<and> fullDayCheck backwards_form)
   \<and> truthy (selectedEmployeeId example_world)
   \<and> handleLeavePermissionSubmit example_world backwards_form = (Some InvalidRange, example_world)
   \<and> handleLeavePermissionSubmit_raf example_world backwards_form
       = (Some InvalidRange, example_world)"
proof -
  have r: "indexOf timeSlots (startSlot backwards_form) > indexOf timeSlots (endSlot backwards_form)"
    by (simp add: backwards_indices)
  have n: "\<not> (currentActionType example_world = JStr ''leave'' \<and> fullDayCheck backwards_form)"
    by (simp add: backwards_form_def)
  have s: "truthy (selectedEmployeeId example_world)"
    by (simp add: example_world_def)
  from invalid_range_rejected [OF r, of example_world] r n s show ?thesis
    by blast
qed

text \<open>
  C3, at an input where \<open>src/script.js\<close> departs from it. A permission over the first
  ten slots with an empty reason is not rejected by \<open>handleLeavePermissionSubmit\<close> of
  \<open>src/script.js\<close>, which has no check of the reason: ten requests are sent and the cells
  are written with an empty description. The second manager rejects the same request with
  \<open>MissingReason\<close> and leaves the world as it was (\<open>reason_required_raf\<close> for every such
  request).
\<close>

theorem permission_without_reason_written:
  "fst (handleLeavePermissionSubmit permission_world no_reason_form) = None
   \<and> sent permission_world = 0
   \<and> sent (snd (handleLeavePermissionSubmit permission_world no_reason_form)) = 10
   \<and> getActivity permission_world ''E'' ''9:00-10:00'' ''2025-01-10'' = None
   \<and> (\<exists>ts. getActivity (snd (handleLeavePermissionSubmit permission_world no_reason_form))
              ''E'' ''9:00-10:00'' ''2025-01-10''
            = Some (new_cell (JStr ''permission'') (JStr '''') ts))
   \<and> handleLeavePermissionSubmit_raf permission_world no_reason_form
       = (Some MissingReason, permission_world)"
proof -
  let ?w = "mark_slots permission_world (JStr ''E'') (JStr ''permission'') [] 0 9"
  have cd: "currentDate permission_world = ''2025-01-10''" "sent permission_world = 0"
    by (simp_all add: permission_world_def example_world_def)
  have first: "timeSlots ! nat 0 = ''9:00-10:00''"
    by (simp add: timeSlots_def)
  have len: "length [0..9::int] = 10"
    by (simp add: upto_rec1)
  have before: "getActivity permission_world ''E'' ''9:00-10:00'' ''2025-01-10'' = None"
    by (simp add: getActivity_cell_at permission_world_def example_activities cell_at_set_cell
        cell_at_empty)
  have s: "sent ?w = 10"
    using mark_slots_range(1) [OF permission_world_accepting, of 0 9 "''permission''" "[]"]
    by (simp add: cd len)
  have "\<forall>k \<in> {0..9::int}. \<exists>ts. getActivity ?w ''E'' (timeSlots ! nat k) (currentDate permission_world)
                             = Some (new_cell (JStr ''permission'') (JStr []) ts)"
    using mark_slots_range(2) [OF permission_world_accepting, of 0 9 "''permission''" "[]"]
    by simp
  then have "\<exists>ts. getActivity ?w ''E'' (timeSlots ! nat 0) (currentDate permission_world)
                             = Some (new_cell (JStr ''permission'') (JStr []) ts)"
    by (rule bspec) simp
  then have c: "\<exists>ts. getActivity ?w ''E'' ''9:00-10:00'' ''2025-01-10''
                             = Some (new_cell (JStr ''permission'') (JStr []) ts)"
    by (simp only: first cd)
  have raf: "handleLeavePermissionSubmit_raf permission_world no_reason_form
       = (Some MissingReason, permission_world)"
    by (rule reason_required_raf)
       (simp_all add: no_reason_indices, simp_all add: permission_world_def example_world_def
          no_reason_form_def trim_def)
  show ?thesis
    using s c before raf cd(2) by (simp add: no_reason_run)
qed

text \<open>
  C5, at an input where the second manager departs from it. With the full-day box
  checked and a selection that runs backwards, \<open>handleLeavePermissionSubmit\<close> of the
  second manager rejects the request as an invalid range and marks nothing, because it
  validates the selection before it looks at the box. \<open>src/script.js\<close> ignores the
  selection and marks the full day (\<open>full_day_bypasses_range\<close> for every selection).
\<close>

theorem full_day_flag_after_range_check:
  "handleLeavePermissionSubmit_raf example_world full_day_backwards_form
     = (Some InvalidRange, example_world)
   \<and> handleLeavePermissionSubmit example_world full_day_backwards_form
     = (None, executeFullDayLeave example_world (JStr ''E''))
   \<and> \<not> isEmployeeOnFullDayLeave example_world ''E''
   \<and> isEmployeeOnFullDayLeave (executeFullDayLeave example_world (JStr ''E'')) ''E''"
proof -
  have idx: "indexOf timeSlots (startSlot full_day_backwards_form)
               > indexOf timeSlots (endSlot full_day_backwards_form)"
    using backwards_indices by (simp add: full_day_backwards_form_def)
  have sel: "selectedEmployeeId example_world = JStr ''E''"
    "currentActionType example_world = JStr ''leave''"
    by (simp_all add: example_world_def)
  have raf: "handleLeavePermissionSubmit_raf example_world full_day_backwards_form
     = (Some InvalidRange, example_world)"
    using idx by (rule range_rejected_raf) (simp add: sel)
  have js: "handleLeavePermissionSubmit example_world full_day_backwards_form
     = (None, executeFullDayLeave example_world (JStr ''E''))"
    using full_day_bypasses_range [of example_world full_day_backwards_form]
    by (simp add: sel full_day_backwards_form_def)
  have on: "\<forall>n. online example_world n"
    by (simp add: example_world_def)
  have before: "\<not> isEmployeeOnFullDayLeave example_world ''E''"
    by (simp add: isEmployeeOnFullDayLeave_def getActivity_cell_at example_activities
        cell_at_set_cell cell_at_empty timeSlots_def)
  from example_accepts_marker obtain d where d: "post_activities
     \<lparr>p_dateKey = JStr (currentDate example_world), p_employeeId = JStr ''E'',
      p_timeSlot = JStr (hd timeSlots),
      p_cell = new_cell (JStr ''leave'') (JStr ''FULL_DAY_LEAVE'') (now example_world)\<rparr>
     (server example_world) = Some d"
    by auto
  note st = full_day_leave_state [OF on d]
  have after: "isEmployeeOnFullDayLeave (executeFullDayLeave example_world (JStr ''E'')) ''E''"
    by (simp add: isEmployeeOnFullDayLeave_def getActivity_cell_at st cell_at_fold_del_cell
        cell_at_set_cell first_slot_not_later new_cell_def)
  show ?thesis
    using raf js before after by simp
qed

section \<open>The store: one cell per key\<close>

lemma show_int_10: "show_int 10 = ''10''" "show_int 19 = ''19''" "show_int 5 = ''5''"
  by (simp_all add: show_int_def show_nat.simps)

lemma parse_10_19: "parseInt_string ''10'' = JNum 10" "parseInt_string ''19'' = JNum 19"
  by (simp_all add: parseInt_string_def parse_unsigned_def digit_val_def is_space_def)

lemma proof_form_cell:
  "activityData_raf proof_form ts =
     \<lparr>type = JStr ''proof'', description = JStr ''chapter 1 (Pages: 10 - 19, Total: 10)'',
      startPage = JNum 10, endPage = JNum 19, pagesDone = JNum 10, totalPages = JUndefined,
      timestamp = JStr ts\<rparr>"
  by (simp add: activityData_raf_def proof_form_def paginated_def Let_def parse_10_19
      new_cell_def page_info_def show_int_10 trim_def is_space_def)

lemma proof_form_cell_js:
  "activityData proof_form ts =
     \<lparr>type = JStr ''proof'', description = JStr ''chapter 1 (Pages: 10 - 19, Total: 10)'',
      startPage = JUndefined, endPage = JUndefined, pagesDone = JNum 10, totalPages = JUndefined,
      timestamp = JStr ts\<rparr>"
  by (simp add: activityData_def proof_form_def paginated_def Let_def parse_10_19 js_or_def
      new_cell_def page_info_def show_int_10)

lemma distinct_upsert:
  assumes "distinct (map row_key rows)"
  shows "distinct (map row_key (upsert new rows))"
proof (cases "list_ex (\<lambda>r. same_key r (r_dateKey new) (r_employeeId new) (r_timeSlot new)) rows")
  case True
  have "map row_key (upsert new rows) = map row_key rows"
    using True by (simp add: upsert_def row_key_def comp_def cong: map_cong)
  then show ?thesis
    using assms by simp
next
  case False
  then have "row_key new \<notin> set (map row_key rows)"
    by (auto simp: list_ex_iff row_key_def same_key_def)
  then show ?thesis
    using assms False by (simp add: upsert_def)
qed

lemma at_most_one_per_key:
  assumes "distinct (map row_key rows)"
  shows "length (filter (\<lambda>r. same_key r dk e s) rows) \<le> 1"
  using assms
proof (induction rows)
  case Nil
  then show ?case by simp
next
  case (Cons r rows)
  show ?case
  proof (cases "same_key r dk e s")
    case True
    then have "row_key r = (dk, e, s)"
      by (simp add: row_key_def same_key_def)
    with Cons.prems have "\<forall>x \<in> set rows. \<not> same_key x dk e s"
      by (auto simp: row_key_def same_key_def image_iff)
    then have "filter (\<lambda>r. same_key r dk e s) rows = []"
      by (simp add: filter_empty_conv)
    then show ?thesis
      using True by simp
  next
    case False
    then show ?thesis
      using Cons by simp
  qed
qed

lemma one_row_after_upsert:
  assumes "distinct (map row_key rows)"
    and "r_dateKey new = dk" "r_employeeId new = e" "r_timeSlot new = s"
  shows "length (filter (\<lambda>r. same_key r dk e s) (upsert new rows)) = 1"
proof -
  have "length (filter (\<lambda>r. same_key r dk e s) (upsert new rows)) \<le> 1"
    using assms(1) by (intro at_most_one_per_key distinct_upsert)
  moreover have "filter (\<lambda>r. same_key r dk e s) (upsert new rows) \<noteq> []"
    using upsert_same_key [OF assms(2-4), of rows] by (metis empty_not_insert set_empty2)
  ultimately show ?thesis
    by (cases "filter (\<lambda>r. same_key r dk e s) (upsert new rows)") auto
qed

lemma rows_after_upsert:
  assumes "distinct (map row_key rows)"
    and "r_dateKey new = dk" "r_employeeId new = e" "r_timeSlot new = s"
  shows "filter (\<lambda>r. same_key r dk e s) (upsert new rows) = [new]"
proof -
  from one_row_after_upsert [OF assms]
  obtain x where x: "filter (\<lambda>r. same_key r dk e s) (upsert new rows) = [x]"
    by (auto simp: length_Suc_conv)
  from upsert_same_key [OF assms(2-4), of rows] have "x = new"
    by (simp add: x)
  with x show ?thesis
    by simp
qed

lemma post_then_rows:
  assumes "post_activities \<lparr>p_dateKey = JStr dk, p_employeeId = JStr e, p_timeSlot = JStr s,
              p_cell = c\<rparr> d = Some d'"
  shows "db_activities d' = upsert (stored_row dk e s c) (db_activities d)"
    and "unique_activity d \<Longrightarrow> unique_activity d'"
    and "unique_activity d \<Longrightarrow>
           filter (\<lambda>r. same_key r dk e s) (db_activities d') = [stored_row dk e s c]"
proof -
  from post_activities_strings [OF assms]
  show d': "db_activities d' = upsert (stored_row dk e s c) (db_activities d)"
    by (auto simp: stored_row_def)
  show "unique_activity d \<Longrightarrow> unique_activity d'"
    by (simp add: d' unique_activity_def distinct_upsert)
  show "unique_activity d \<Longrightarrow>
           filter (\<lambda>r. same_key r dk e s) (db_activities d') = [stored_row dk e s c]"
    by (simp add: d' unique_activity_def rows_after_upsert stored_row_def)
qed

lemma lists_all_set:
  assumes "lists_all answer" shows "set (answer rows) = set rows"
proof -
  have "x \<in> set (answer rows) \<longleftrightarrow> x \<in> set rows" for x
    using assms count_list_0_iff [of "answer rows" x] count_list_0_iff [of rows x]
    by (simp add: lists_all_def)
  then show ?thesis
    by blast
qed

lemma lists_all_length:
  assumes "lists_all answer" shows "length (answer rows) = length rows"
proof -
  have "length (answer rows) = sum (count_list (answer rows)) (set (answer rows))"
    by (simp add: sum_count_set)
  also have "\<dots> = sum (count_list rows) (set rows)"
    using assms by (simp add: lists_all_set) (simp add: lists_all_def)
  also have "\<dots> = length rows"
    by (simp add: sum_count_set)
  finally show ?thesis .
qed

lemma upsert_not_empty: "upsert new rows \<noteq> []"
  by (auto simp: upsert_def list_ex_iff)

lemma response_cells:
  assumes "cell_at (get_activities answer None d) k1 k2 k3 = Some a"
  shows "k1 = ''undefined'' \<and> k2 = ''undefined'' \<and> k3 = ''undefined''
       \<and> pagesDone a = JUndefined \<and> totalPages a = JUndefined"
  using assms by (auto simp: cell_at_get_activities row_cell_columns split: if_splits)

lemma response_last_row:
  assumes "lists_all answer" and "db_activities d \<noteq> []"
  shows "\<exists>row \<in> set (db_activities d).
           cell_at (get_activities answer None d) ''undefined'' ''undefined'' ''undefined''
             = Some (row_cell row)"
proof -
  from assms have ne: "answer (db_activities d) \<noteq> []"
    using lists_all_length [OF assms(1), of "db_activities d"] by auto
  then have "last (answer (db_activities d)) \<in> set (db_activities d)"
    using lists_all_set [OF assms(1), of "db_activities d"] last_in_set by blast
  then show ?thesis
    using ne by (auto simp: cell_at_get_activities)
qed


lemma post_proof_body:
  "post_activities proof_body example_db
     = Some (example_db\<lparr>db_activities := [example_row, proof_row]\<rparr>)"
  by (simp add: post_activities_def proof_body_def proof_form_cell Let_def example_db_def
      example_employee_def upsert_def same_key_def example_row_def proof_row_def show_int_10)

lemma post_lunch_body:
  "post_activities lunch_body (example_db\<lparr>db_activities := [example_row, proof_row]\<rparr>)
     = Some (example_db\<lparr>db_activities :=
          [example_row,
           proof_row\<lparr>r_type := ''lunch'', r_description := Some ''LUNCH'', r_pagesDone := None,
                      r_timestamp := Some ''2025-01-10T12:00:00.000Z''\<rparr>]\<rparr>)"
  by (simp add: post_activities_def lunch_body_def new_cell_def Let_def example_db_def
      example_employee_def upsert_def same_key_def example_row_def proof_row_def)

text \<open>
  C7, at an input where the server departs from it. After a successful
  \<open>POST /api/activities\<close> for a key of three strings, the key having been unique in the
  table, the table has exactly one row of the key, with the written values as the driver
  binds them; after a second write to the key it is still one row, with the values of the
  second write. But \<open>GET /api/activities\<close> does not return the cell: the route reads
  \<open>row.dateKey\<close>, \<open>row.employeeId\<close>, \<open>row.timeSlot\<close>, \<open>row.totalPages\<close> and \<open>row.pagesDone\<close>
  from row objects whose properties are in lower case. Every cell of a response is filed
  under the key \<open>undefined\<close>, \<open>undefined\<close>, \<open>undefined\<close> and has neither \<open>pagesDone\<close> nor
  \<open>totalPages\<close>, there is nothing at the written key, and the single cell of the response
  is made from some row of the table (the last of the answer).
\<close>

theorem set_then_get_misfiled:
  assumes uniq: "unique_activity d"
    and p1: "post_activities \<lparr>p_dateKey = JStr dk, p_employeeId = JStr e, p_timeSlot = JStr s,
               p_cell = c1\<rparr> d = Some d1"
    and p2: "post_activities \<lparr>p_dateKey = JStr dk, p_employeeId = JStr e, p_timeSlot = JStr s,
               p_cell = c2\<rparr> d1 = Some d2"
    and answer: "lists_all answer"
    and key: "(dk, e, s) \<noteq> (''undefined'', ''undefined'', ''undefined'')"
  shows "filter (\<lambda>r. same_key r dk e s) (db_activities d1) = [stored_row dk e s c1]
       \<and> filter (\<lambda>r. same_key r dk e s) (db_activities d2) = [stored_row dk e s c2]
       \<and> unique_activity d2
       \<and> cell_at (get_activities answer None d1) dk e s = None
       \<and> cell_at (get_activities answer None d2) dk e s = None
       \<and> (\<forall>k1 k2 k3 a. cell_at (get_activities answer None d2) k1 k2 k3 = Some a \<longrightarrow>
             k1 = ''undefined'' \<and> k2 = ''undefined'' \<and> k3 = ''undefined''
             \<and> pagesDone a = JUndefined \<and> totalPages a = JUndefined)
       \<and> (\<exists>row \<in> set (db_activities d2).
             cell_at (get_activities answer None d2) ''undefined'' ''undefined'' ''undefined''
               = Some \<lparr>type = JStr (r_type row), description = json_column (r_description row),
                       startPage = JUndefined, endPage = JUndefined, pagesDone = JUndefined,
                       totalPages = JUndefined, timestamp = json_column (r_timestamp row)\<rparr>)"
proof -
  note r1 = post_then_rows [OF p1]
  note r2 = post_then_rows [OF p2]
  have u1: "unique_activity d1"
    using uniq by (rule r1(2))
  have a: "filter (\<lambda>r. same_key r dk e s) (db_activities d1) = [stored_row dk e s c1]"
    using uniq by (rule r1(3))
  have b: "filter (\<lambda>r. same_key r dk e s) (db_activities d2) = [stored_row dk e s c2]"
    using u1 by (rule r2(3))
  have c: "unique_activity d2"
    using u1 by (rule r2(2))
  have none: "cell_at (get_activities answer None x) dk e s = None" for x
    using key by (auto simp: cell_at_get_activities)
  have every: "\<forall>k1 k2 k3 a. cell_at (get_activities answer None d2) k1 k2 k3 = Some a \<longrightarrow>
             k1 = ''undefined'' \<and> k2 = ''undefined'' \<and> k3 = ''undefined''
             \<and> pagesDone a = JUndefined \<and> totalPages a = JUndefined"
    using response_cells by blast
  have "db_activities d2 \<noteq> []"
    by (simp add: r2(1) upsert_not_empty)
  from response_last_row [OF answer this]
  have some: "\<exists>row \<in> set (db_activities d2).
             cell_at (get_activities answer None d2) ''undefined'' ''undefined'' ''undefined''
               = Some \<lparr>type = JStr (r_type row), description = json_column (r_description row),
                       startPage = JUndefined, endPage = JUndefined, pagesDone = JUndefined,
                       totalPages = JUndefined, timestamp = json_column (r_timestamp row)\<rparr>"
    by (simp add: row_cell_columns)
  show ?thesis
    using a b c none [of d1] none [of d2] every some by (intro conjI) assumption+
qed

text \<open>
  In \<open>example_db\<close>, a proof-reading entry for pages 10 to 19 and then a lunch break are
  written to the first slot. The table has one row of the key, the lunch break. The
  response has no cell at the key; answered in the order of the list, it has under
  \<open>undefined\<close> the proof-reading entry without its pages after the first write, and the
  lunch break after the second.
\<close>

theorem set_then_get_misfiled_witness:
  "unique_activity example_db
   \<and> post_activities proof_body example_db
       = Some (example_db\<lparr>db_activities := [example_row, proof_row]\<rparr>)
   \<and> post_activities lunch_body (example_db\<lparr>db_activities := [example_row, proof_row]\<rparr>)
       = Some (example_db\<lparr>db_activities :=
          [example_row,
           proof_row\<lparr>r_type := ''lunch'', r_description := Some ''LUNCH'', r_pagesDone := None,
                      r_timestamp := Some ''2025-01-10T12:00:00.000Z''\<rparr>]\<rparr>)
   \<and> lists_all (\<lambda>rows :: activity_row list. rows)
   \<and> pagesDone (p_cell proof_body) = JNum 10 \<and> startPage (p_cell proof_body) = JNum 10
   \<and> endPage (p_cell proof_body) = JNum 19
   \<and> filter (\<lambda>r. same_key r ''2025-01-10'' ''E'' ''9:00-10:00'')
        (db_activities (example_db\<lparr>db_activities :=
          [example_row,
           proof_row\<lparr>r_type := ''lunch'', r_description := Some ''LUNCH'', r_pagesDone := None,
                      r_timestamp := Some ''2025-01-10T12:00:00.000Z''\<rparr>]\<rparr>))
       = [stored_row ''2025-01-10'' ''E'' ''9:00-10:00'' (p_cell lunch_body)]
   \<and> cell_at (get_activities (\<lambda>rows. rows) None
                 (example_db\<lparr>db_activities := [example_row, proof_row]\<rparr>))
        ''2025-01-10'' ''E'' ''9:00-10:00'' = None
   \<and> cell_at (get_activities (\<lambda>rows. rows) None
                 (example_db\<lparr>db_activities := [example_row, proof_row]\<rparr>))
        ''undefined'' ''undefined'' ''undefined''
       = Some \<lparr>type = JStr ''proof'',
               description = JStr ''chapter 1 (Pages: 10 - 19, Total: 10)'',
               startPage = JUndefined, endPage = JUndefined, pagesDone = JUndefined,
               totalPages = JUndefined, timestamp = JStr ''2025-01-10T09:00:00.000Z''\<rparr>"
proof -
  have u: "unique_activity example_db"
    by (simp add: unique_activity_def example_db_def)
  have p1: "post_activities \<lparr>p_dateKey = JStr ''2025-01-10'', p_employeeId = JStr ''E'',
               p_timeSlot = JStr ''9:00-10:00'', p_cell = p_cell proof_body\<rparr> example_db
             = Some (example_db\<lparr>db_activities := [example_row, proof_row]\<rparr>)"
    using post_proof_body by (simp add: proof_body_def)
  have p2: "post_activities \<lparr>p_dateKey = JStr ''2025-01-10'', p_employeeId = JStr ''E'',
               p_timeSlot = JStr ''9:00-10:00'', p_cell = p_cell lunch_body\<rparr>
              (example_db\<lparr>db_activities := [example_row, proof_row]\<rparr>)
             = Some (example_db\<lparr>db_activities :=
          [example_row,
           proof_row\<lparr>r_type := ''lunch'', r_description := Some ''LUNCH'', r_pagesDone := None,
                      r_timestamp := Some ''2025-01-10T12:00:00.000Z''\<rparr>]\<rparr>)"
    using post_lunch_body by (simp add: lunch_body_def)
  have l: "lists_all (\<lambda>rows :: activity_row list. rows)"
    by (simp add: lists_all_def)
  have k: "(''2025-01-10'', ''E'', ''9:00-10:00'') \<noteq> (''undefined'', ''undefined'', ''undefined'')"
    by simp
  have pages: "pagesDone (p_cell proof_body) = JNum 10" "startPage (p_cell proof_body) = JNum 10"
    "endPage (p_cell proof_body) = JNum 19"
    by (simp_all add: proof_body_def proof_form_cell)
  have under: "cell_at (get_activities (\<lambda>rows. rows) None
                 (example_db\<lparr>db_activities := [example_row, proof_row]\<rparr>))
        ''undefined'' ''undefined'' ''undefined''
       = Some \<lparr>type = JStr ''proof'',
               description = JStr ''chapter 1 (Pages: 10 - 19, Total: 10)'',
               startPage = JUndefined, endPage = JUndefined, pagesDone = JUndefined,
               totalPages = JUndefined, timestamp = JStr ''2025-01-10T09:00:00.000Z''\<rparr>"
    by (simp add: cell_at_get_activities row_cell_columns proof_row_def)
  note t = set_then_get_misfiled [OF u p1 p2 l k]
  have rows: "filter (\<lambda>r. same_key r ''2025-01-10'' ''E'' ''9:00-10:00'')
        (db_activities (example_db\<lparr>db_activities :=
          [example_row,
           proof_row\<lparr>r_type := ''lunch'', r_description := Some ''LUNCH'', r_pagesDone := None,
                      r_timestamp := Some ''2025-01-10T12:00:00.000Z''\<rparr>]\<rparr>))
       = [stored_row ''2025-01-10'' ''E'' ''9:00-10:00'' (p_cell lunch_body)]"
    using t by blast
  have none: "cell_at (get_activities (\<lambda>rows. rows) None
                 (example_db\<lparr>db_activities := [example_row, proof_row]\<rparr>))
        ''2025-01-10'' ''E'' ''9:00-10:00'' = None"
    using t by blast
  show ?thesis
    using u post_proof_body post_lunch_body l pages rows none under
    by (intro conjI) assumption+
qed


section \<open>Deleting an employee\<close>

text \<open>
  C9, as the route is written. \<open>DELETE /api/employees/:id\<close> removes the employee and all
  activity rows of the employee, on every date, after copying them to
  \<open>deleted_activities\<close> with the time of the request; the rows of other employees stay.
  The count in the response is the row count of the delete from \<open>employees\<close>: the number
  of employee rows of that id, 1 or 0 under the primary key.
\<close>

theorem delete_employee_cascade:
  "fst (delete_employee t ident d) = length (filter (\<lambda>e. e_id e = ident) (db_employees d))
   \<and> (employees_pkey d \<longrightarrow>
        fst (delete_employee t ident d) = (if ident \<in> set (map e_id (db_employees d)) then 1 else 0))
   \<and> db_employees (snd (delete_employee t ident d))
        = filter (\<lambda>e. e_id e \<noteq> ident) (db_employees d)
   \<and> ident \<notin> set (map e_id (db_employees (snd (delete_employee t ident d))))
   \<and> db_activities (snd (delete_employee t ident d))
        = filter (\<lambda>r. r_employeeId r \<noteq> ident) (db_activities d)
   \<and> ident \<notin> set (map r_employeeId (db_activities (snd (delete_employee t ident d))))
   \<and> db_deleted_activities (snd (delete_employee t ident d))
        = db_deleted_activities d
          @ map (\<lambda>r. (r, t)) (filter (\<lambda>r. r_employeeId r = ident) (db_activities d))"
proof -
  have one: "employees_pkey d \<Longrightarrow>
      length (filter (\<lambda>e. e_id e = ident) (db_employees d))
        = (if ident \<in> set (map e_id (db_employees d)) then 1 else 0)"
  proof -
    assume "employees_pkey d"
    then have "distinct (map e_id (db_employees d))"
      by (simp add: employees_pkey_def)
    then show ?thesis
    proof (induction "db_employees d" arbitrary: d)
      case Nil
      then show ?case by simp
    next
      case (Cons a as)
      from Cons.hyps(2) [symmetric] Cons.prems
      have d: "db_employees d = a # as" "e_id a \<notin> e_id ` set as" "distinct (map e_id as)"
        by simp_all
      from Cons.hyps(1) [of "d\<lparr>db_employees := as\<rparr>"] d(3)
      have "length (filter (\<lambda>e. e_id e = ident) as) = (if ident \<in> set (map e_id as) then 1 else 0)"
        by simp
      then show ?case
        using d by (auto simp: filter_empty_conv)
    qed
  qed
  show ?thesis
    using one by (auto simp: delete_employee_def Let_def)
qed

theorem delete_employee_cascade_witness:
  "employees_pkey two_rows_db
   \<and> fst (delete_employee ''2025-01-12T08:00:00.000Z'' ''E'' two_rows_db) = 1
   \<and> db_employees (snd (delete_employee ''2025-01-12T08:00:00.000Z'' ''E'' two_rows_db)) = []
   \<and> db_activities (snd (delete_employee ''2025-01-12T08:00:00.000Z'' ''E'' two_rows_db)) = []
   \<and> db_deleted_activities (snd (delete_employee ''2025-01-12T08:00:00.000Z'' ''E'' two_rows_db))
       = [(example_row, ''2025-01-12T08:00:00.000Z''),
          (example_row\<lparr>r_dateKey := ''2025-01-11''\<rparr>, ''2025-01-12T08:00:00.000Z'')]"
proof -
  have pk: "employees_pkey two_rows_db"
    by (simp add: employees_pkey_def two_rows_db_def example_db_def)
  from delete_employee_cascade [of "''2025-01-12T08:00:00.000Z''" "''E''" two_rows_db] pk
  show ?thesis
    by (simp add: two_rows_db_def example_db_def example_employee_def example_row_def)
qed

text \<open>
  C9 as stated fails: with two activity rows removed, the count in the response is 1.
\<close>

theorem delete_employee_count_counterexample:
  "fst (delete_employee ''2025-01-12T08:00:00.000Z'' ''E'' two_rows_db) = 1
   \<and> length (filter (\<lambda>r. r_employeeId r = ''E'') (db_activities two_rows_db)) = 2
   \<and> db_activities (snd (delete_employee ''2025-01-12T08:00:00.000Z'' ''E'' two_rows_db)) = []
   \<and> fst (delete_employee ''2025-01-12T08:00:00.000Z'' ''E'' two_rows_db)
       \<noteq> length (filter (\<lambda>r. r_employeeId r = ''E'') (db_activities two_rows_db))"
  by (simp add: delete_employee_def Let_def two_rows_db_def example_db_def example_employee_def
      example_row_def)

section \<open>The store does not keep the leave invariant\<close>









section \<open>Page counts\<close>

lemma page_fields_raf:
  assumes "paginated (activityType f)"
  shows "(startPageValue f \<noteq> [] \<and> endPageValue f \<noteq> []
           \<and> parseInt (JStr (startPageValue f)) = JNum a
           \<and> parseInt (JStr (endPageValue f)) = JNum b
          \<longrightarrow> startPage (activityData_raf f ts) = JNum a
              \<and> endPage (activityData_raf f ts) = JNum b
              \<and> pagesDone (activityData_raf f ts) = JNum (max 0 (b - a + 1)))
       \<and> (startPageValue f = [] \<or> endPageValue f = []
          \<longrightarrow> startPage (activityData_raf f ts) = JUndefined
              \<and> endPage (activityData_raf f ts) = JUndefined
              \<and> pagesDone (activityData_raf f ts) = JUndefined)"
  using assms by (auto simp: activityData_raf_def Let_def new_cell_def)

lemma pages_done_of_bounds_raf:
  "(startPage (activityData_raf f ts) = JNum a \<and> endPage (activityData_raf f ts) = JNum b
      \<longrightarrow> pagesDone (activityData_raf f ts) = JNum (max 0 (b - a + 1)))
   \<and> (startPage (activityData_raf f ts) = JUndefined \<or> endPage (activityData_raf f ts) = JUndefined
      \<longrightarrow> pagesDone (activityData_raf f ts) = JUndefined)"
proof -
  have nan: "\<And>s. parseInt (JStr s) \<noteq> JUndefined"
    by (simp add: parseInt_string_def Let_def split: option.splits)
  show ?thesis
    using nan by (auto simp: activityData_raf_def Let_def new_cell_def)
qed

lemma fresh_world_facts:
  "currentDate fresh_world = ''2025-01-10''" "sent fresh_world = 0"
  "online fresh_world = (\<lambda>n. True)" "activities fresh_world = Map.empty"
  "server fresh_world = example_db\<lparr>db_activities := []\<rparr>"
  "now fresh_world = ''2025-01-10T09:00:00.000Z''"
  by (simp_all add: fresh_world_def example_world_def now_def)

lemma totals_single_cell:
  assumes "type c = JStr ''proof''" and "isEmployeeOnFullDayLeave m ''E'' = False"
    and "activities m = set_cell Map.empty (currentDate m) ''E'' ''9:00-10:00'' c"
  shows "computeTotals m ''E'' =
           (if truthy (pagesDone c)
            then \<lparr>proofTotal = pages_of (pagesDone c), epubTotal = 0, calibrTotal = 0\<rparr>
            else \<lparr>proofTotal = 0, epubTotal = 0, calibrTotal = 0\<rparr>)"
  using assms(1,2)
  by (simp add: computeTotals_def getActivity_cell_at assms(3) cell_at_set_cell cell_at_empty
      timeSlots_def add_slot_def zero_totals_def Let_def)

lemma fresh_world_accepting: "accepting fresh_world ''E''"
  by (simp add: accepting_def fresh_world_def example_world_def example_db_def
      example_employee_def)

lemma fresh_submit:
  assumes ty: "type c = JStr ''proof''" and fit: "fits 50 (sql_param (pagesDone c))"
    and tot: "totalPages c = JUndefined" and ts: "timestamp c = JStr ''2025-01-10T09:00:00.000Z''"
  shows "activities (setActivity fresh_world (JStr ''E'') (JStr ''9:00-10:00'') c)
           = set_cell Map.empty ''2025-01-10'' ''E'' ''9:00-10:00'' c"
    and "currentDate (setActivity fresh_world (JStr ''E'') (JStr ''9:00-10:00'') c) = ''2025-01-10''"
proof -
  let ?body = "\<lparr>p_dateKey = JStr (currentDate fresh_world), p_employeeId = JStr ''E'',
                 p_timeSlot = JStr ''9:00-10:00'', p_cell = c\<rparr>"
  have "post_activities ?body (server fresh_world) \<noteq> None"
    using ty fit tot ts
    by (simp add: post_activities_def fresh_world_facts example_db_def example_employee_def)
  then obtain d where d: "post_activities ?body (server fresh_world) = Some d"
    by auto
  have on: "online fresh_world (sent fresh_world)"
    by (simp add: fresh_world_facts)
  from setActivity_ok [OF on d]
  show "activities (setActivity fresh_world (JStr ''E'') (JStr ''9:00-10:00'') c)
           = set_cell Map.empty ''2025-01-10'' ''E'' ''9:00-10:00'' c"
    and "currentDate (setActivity fresh_world (JStr ''E'') (JStr ''9:00-10:00'') c) = ''2025-01-10''"
    by (simp_all add: fresh_world_facts)
qed

lemma fresh_totals:
  assumes ty: "type c = JStr ''proof''" and fit: "fits 50 (sql_param (pagesDone c))"
    and tot: "totalPages c = JUndefined" and ts: "timestamp c = JStr ''2025-01-10T09:00:00.000Z''"
  shows "computeTotals (setActivity fresh_world (JStr ''E'') (JStr ''9:00-10:00'') c) ''E'' =
           (if truthy (pagesDone c)
            then \<lparr>proofTotal = pages_of (pagesDone c), epubTotal = 0, calibrTotal = 0\<rparr>
            else \<lparr>proofTotal = 0, epubTotal = 0, calibrTotal = 0\<rparr>)"
    and "getActivity (setActivity fresh_world (JStr ''E'') (JStr ''9:00-10:00'') c)
           ''E'' ''9:00-10:00'' ''2025-01-10'' = Some c"
proof -
  let ?w = "setActivity fresh_world (JStr ''E'') (JStr ''9:00-10:00'') c"
  note st = fresh_submit [OF assms]
  have nl: "isEmployeeOnFullDayLeave ?w ''E'' = False"
    using ty by (simp add: isEmployeeOnFullDayLeave_def getActivity_cell_at st cell_at_set_cell
        timeSlots_def)
  have act: "activities ?w = set_cell Map.empty (currentDate ?w) ''E'' ''9:00-10:00'' c"
    by (simp add: st)
  show "computeTotals ?w ''E'' =
           (if truthy (pagesDone c)
            then \<lparr>proofTotal = pages_of (pagesDone c), epubTotal = 0, calibrTotal = 0\<rparr>
            else \<lparr>proofTotal = 0, epubTotal = 0, calibrTotal = 0\<rparr>)"
    by (rule totals_single_cell [OF ty nl act])
  show "getActivity ?w ''E'' ''9:00-10:00'' ''2025-01-10'' = Some c"
    by (simp add: getActivity_cell_at st cell_at_set_cell)
qed

lemma blank_form_cell_js:
  "activityData blank_form ts =
     \<lparr>type = JStr ''proof'', description = JStr ''chapter 1 (Pages: 0 - 0, Total: 1)'',
      startPage = JUndefined, endPage = JUndefined, pagesDone = JNum 1, totalPages = JUndefined,
      timestamp = JStr ts\<rparr>"
  by (simp add: activityData_def blank_form_def proof_form_def paginated_def Let_def js_or_def
      parseInt_string_def parse_unsigned_def new_cell_def page_info_def show_int_def
      show_nat.simps)

lemma blank_form_cell_raf:
  "activityData_raf blank_form ts = new_cell (JStr ''proof'') (JStr ''chapter 1'') ts"
  by (simp add: activityData_raf_def blank_form_def proof_form_def Let_def trim_def is_space_def)

lemma submit_js:
  "handleActivitySubmit fresh_world f =
     setActivity fresh_world (JStr (activityEmployeeId f)) (JStr (activityTimeSlot f))
       (activityData f ''2025-01-10T09:00:00.000Z'')"
  by (simp add: handleActivitySubmit_def fresh_world_facts)

lemma submit_raf:
  assumes "activityEmployeeId f \<noteq> []" "activityTimeSlot f \<noteq> []" "activityType f \<noteq> []"
  shows "handleActivitySubmit_raf fresh_world f =
     setActivity fresh_world (JStr (activityEmployeeId f)) (JStr (activityTimeSlot f))
       (activityData_raf f ''2025-01-10T09:00:00.000Z'')"
  using assms by (simp add: handleActivitySubmit_raf_def fresh_world_facts Let_def)

lemma pages_of_num: "pages_of (JNum n) = n"
  by (simp add: pages_of_def js_or_def)

lemma form_fields:
  "activityEmployeeId proof_form = ''E''" "activityTimeSlot proof_form = ''9:00-10:00''"
  "activityType proof_form = ''proof''"
  "activityEmployeeId blank_form = ''E''" "activityTimeSlot blank_form = ''9:00-10:00''"
  "activityType blank_form = ''proof''"
  by (simp_all add: proof_form_def blank_form_def)

lemma proof_pages_scenario:
  "pagesDone (activityData_raf proof_form ''2025-01-10T09:00:00.000Z'') = JNum 10
   \<and> getActivity (handleActivitySubmit_raf fresh_world proof_form) ''E'' ''9:00-10:00'' ''2025-01-10''
       = Some (activityData_raf proof_form ''2025-01-10T09:00:00.000Z'')
   \<and> computeTotals (handleActivitySubmit_raf fresh_world proof_form) ''E''
       = \<lparr>proofTotal = 10, epubTotal = 0, calibrTotal = 0\<rparr>
   \<and> pagesDone (activityData proof_form ''2025-01-10T09:00:00.000Z'') = JNum 10
   \<and> computeTotals (handleActivitySubmit fresh_world proof_form) ''E''
       = \<lparr>proofTotal = 10, epubTotal = 0, calibrTotal = 0\<rparr>"
proof -
  let ?ts = "''2025-01-10T09:00:00.000Z''"
  have raf: "handleActivitySubmit_raf fresh_world proof_form =
     setActivity fresh_world (JStr ''E'') (JStr ''9:00-10:00'') (activityData_raf proof_form ?ts)"
    using submit_raf [of proof_form] by (simp add: form_fields)
  have js: "handleActivitySubmit fresh_world proof_form =
     setActivity fresh_world (JStr ''E'') (JStr ''9:00-10:00'') (activityData proof_form ?ts)"
    using submit_js [of proof_form] by (simp add: form_fields)
  have t1: "computeTotals (handleActivitySubmit_raf fresh_world proof_form) ''E''
       = \<lparr>proofTotal = 10, epubTotal = 0, calibrTotal = 0\<rparr>"
    unfolding raf
    by (subst fresh_totals(1)) (simp_all add: proof_form_cell show_int_10 pages_of_num)
  have g1: "getActivity (handleActivitySubmit_raf fresh_world proof_form) ''E'' ''9:00-10:00'' ''2025-01-10''
       = Some (activityData_raf proof_form ?ts)"
    unfolding raf
    by (rule fresh_totals(2)) (simp_all add: proof_form_cell show_int_10)
  have t2: "computeTotals (handleActivitySubmit fresh_world proof_form) ''E''
       = \<lparr>proofTotal = 10, epubTotal = 0, calibrTotal = 0\<rparr>"
    unfolding js
    by (subst fresh_totals(1)) (simp_all add: proof_form_cell_js show_int_10 pages_of_num)
  show ?thesis
    using t1 g1 t2 by (simp add: proof_form_cell proof_form_cell_js)
qed

text \<open>
  C6, at an input where \<open>src/script.js\<close> departs from it. With both page inputs left
  empty, \<open>handleActivitySubmit\<close> of \<open>src/script.js\<close> takes each bound as 0 and stores
  \<open>pagesDone = 1\<close>, which the totals then count as one page of proof-reading. The second
  manager sets the page fields only when both inputs are given: there \<open>pagesDone\<close> is
  absent and the total is 0. (For the second manager \<open>pages_done_of_bounds_raf\<close> is the
  claim for every form, and \<open>proof_pages_scenario\<close> is its scenario, pages 10 to 19, in
  both managers.)
\<close>

theorem blank_pages_counted_as_one:
  "startPageValue blank_form = [] \<and> endPageValue blank_form = []
   \<and> pagesDone (activityData blank_form ''2025-01-10T09:00:00.000Z'') = JNum 1
   \<and> getActivity (handleActivitySubmit fresh_world blank_form) ''E'' ''9:00-10:00'' ''2025-01-10''
       = Some (activityData blank_form ''2025-01-10T09:00:00.000Z'')
   \<and> computeTotals (handleActivitySubmit fresh_world blank_form) ''E''
       = \<lparr>proofTotal = 1, epubTotal = 0, calibrTotal = 0\<rparr>
   \<and> pagesDone (activityData_raf blank_form ''2025-01-10T09:00:00.000Z'') = JUndefined
   \<and> computeTotals (handleActivitySubmit_raf fresh_world blank_form) ''E''
       = \<lparr>proofTotal = 0, epubTotal = 0, calibrTotal = 0\<rparr>"
proof -
  let ?ts = "''2025-01-10T09:00:00.000Z''"
  have raf: "handleActivitySubmit_raf fresh_world blank_form =
     setActivity fresh_world (JStr ''E'') (JStr ''9:00-10:00'') (activityData_raf blank_form ?ts)"
    using submit_raf [of blank_form] by (simp add: form_fields)
  have js: "handleActivitySubmit fresh_world blank_form =
     setActivity fresh_world (JStr ''E'') (JStr ''9:00-10:00'') (activityData blank_form ?ts)"
    using submit_js [of blank_form] by (simp add: form_fields)
  have t1: "computeTotals (handleActivitySubmit fresh_world blank_form) ''E''
       = \<lparr>proofTotal = 1, epubTotal = 0, calibrTotal = 0\<rparr>"
    unfolding js
    by (subst fresh_totals(1)) (simp_all add: blank_form_cell_js show_int_def show_nat.simps pages_of_num)
  have g1: "getActivity (handleActivitySubmit fresh_world blank_form) ''E'' ''9:00-10:00'' ''2025-01-10''
       = Some (activityData blank_form ?ts)"
    unfolding js
    by (rule fresh_totals(2)) (simp_all add: blank_form_cell_js show_int_def show_nat.simps)
  have t2: "computeTotals (handleActivitySubmit_raf fresh_world blank_form) ''E''
       = \<lparr>proofTotal = 0, epubTotal = 0, calibrTotal = 0\<rparr>"
    unfolding raf
    by (subst fresh_totals(1)) (simp_all add: blank_form_cell_raf new_cell_def)
  have e: "startPageValue blank_form = []" "endPageValue blank_form = []"
    by (simp_all add: blank_form_def)
  show ?thesis
    using t1 g1 t2 e by (simp add: blank_form_cell_js blank_form_cell_raf new_cell_def)
qed

text \<open>
  The early returns of the second manager are not taken at this input: the employee, the
  slot and the type are given.
\<close>

theorem blank_pages_counted_as_one_witness:
  "truthy (JStr (activityEmployeeId blank_form)) \<and> truthy (JStr (activityTimeSlot blank_form))
   \<and> activityType blank_form = ''proof''
   \<and> proofTotal (computeTotals (handleActivitySubmit fresh_world blank_form) ''E'') = 1
   \<and> proofTotal (computeTotals (handleActivitySubmit_raf fresh_world blank_form) ''E'') = 0"
  using blank_pages_counted_as_one by (simp add: form_fields)

section \<open>Reconciling the roster\<close>

subsection \<open>First occurrences\<close>

lemma keep_first_names:
  "e_name ` set (keep_first seen xs) = e_name ` set xs - seen"
  by (induction xs arbitrary: seen) auto

lemma keep_first_not_seen:
  assumes "e \<in> set (keep_first seen xs)"
  shows "e_name e \<notin> seen"
proof -
  from assms have "e_name e \<in> e_name ` set (keep_first seen xs)"
    by (rule imageI)
  then show ?thesis
    by (simp add: keep_first_names)
qed

lemma keep_first_distinct:
  "distinct (map e_name (keep_first seen xs))"
  by (induction xs arbitrary: seen) (auto dest: keep_first_not_seen)

lemma keep_first_subset: "set (keep_first seen xs) \<subseteq> set xs"
  by (induction xs arbitrary: seen) auto

lemma keep_first_is_first:
  assumes "e \<in> set (keep_first seen xs)"
  shows "find (\<lambda>x. e_name x = e_name e \<and> e_name x \<notin> seen) xs = Some e"
  using assms
proof (induction xs arbitrary: seen)
  case Nil
  then show ?case by simp
next
  case (Cons x xs)
  show ?case
  proof (cases "e_name x \<in> seen")
    case True
    with Cons show ?thesis by simp
  next
    case False
    show ?thesis
    proof (cases "e = x")
      case True
      with False show ?thesis by simp
    next
      case ne: False
      with Cons.prems False have in_rest: "e \<in> set (keep_first (insert (e_name x) seen) xs)"
        by simp
      then have diff: "e_name e \<noteq> e_name x" "e_name e \<notin> seen"
        using keep_first_not_seen by fastforce+
      have same: "(\<lambda>y. e_name y = e_name e \<and> e_name y \<notin> insert (e_name x) seen)
                   = (\<lambda>y. e_name y = e_name e \<and> e_name y \<notin> seen)"
        using diff by auto
      from Cons.IH [OF in_rest]
      have "find (\<lambda>y. e_name y = e_name e \<and> e_name y \<notin> seen) xs = Some e"
        by (simp only: same)
      moreover have "\<not> (e_name x = e_name e \<and> e_name x \<notin> seen)"
        using diff by auto
      ultimately show ?thesis
        by (simp only: find.simps if_False)
    qed
  qed
qed

lemma keep_first_first_occurrence:
  assumes "e \<in> set (keep_first {} xs)"
  shows "find (\<lambda>x. e_name x = e_name e) xs = Some e"
  using keep_first_is_first [OF assms] by simp

lemma duplicates_or_kept:
  "set xs = set (duplicates seen xs) \<union> set (keep_first seen xs)"
  by (induction xs arbitrary: seen) auto

lemma filter_duplicates:
  assumes "distinct (map e_id xs)"
  shows "filter (\<lambda>e. e_id e \<notin> e_id ` set (duplicates seen xs)) xs = keep_first seen xs"
  using assms
proof (induction xs arbitrary: seen)
  case Nil
  then show ?case by simp
next
  case (Cons x xs)
  have sub: "set (duplicates s xs) \<subseteq> set xs" for s
    using duplicates_or_kept [of xs s] by blast
  have x_not: "e_id x \<notin> e_id ` set (duplicates s xs)" for s
    using Cons.prems sub [of s] by auto
  have rest: "filter (\<lambda>e. e_id e \<notin> e_id ` set (duplicates s xs)) xs = keep_first s xs" for s
    using Cons.IH Cons.prems by simp
  have drop_x: "filter (\<lambda>e. e_id e \<noteq> e_id x \<and> P e) xs = filter P xs" for P
    using Cons.prems by (intro filter_cong) (auto simp: image_iff)
  show ?case
  proof (cases "e_name x \<in> seen")
    case True
    then show ?thesis
      using rest [of seen] by (simp add: drop_x)
  next
    case False
    then show ?thesis
      using rest [of "insert (e_name x) seen"] x_not [of "insert (e_name x) seen"] by simp
  qed
qed

subsection \<open>Answers of the database\<close>

lemma lists_all_distinct_map:
  assumes "lists_all answer" and "distinct (map f xs)"
  shows "distinct (map f (answer xs))"
proof -
  have "card (set (map f (answer xs))) = card (set (map f xs))"
    by (simp add: lists_all_set [OF assms(1)])
  also have "\<dots> = length (map f xs)"
    using assms(2) by (rule distinct_card)
  also have "\<dots> = length (map f (answer xs))"
    by (simp add: lists_all_length [OF assms(1)])
  finally show ?thesis
    by (rule card_distinct)
qed

lemma count_insert_by_name:
  "count_list (insert_by_name emp xs) x = count_list (emp # xs) x"
  by (induction xs) auto

lemma sort_by_name_lists_all: "lists_all sort_by_name"
proof -
  have "count_list (foldr insert_by_name xs []) x = count_list xs x" for xs x
    by (induction xs) (simp_all add: count_insert_by_name)
  then show ?thesis
    by (simp add: lists_all_def sort_by_name_def)
qed

subsection \<open>The roster and the table\<close>

lemma ids_of_id_names: "e_id ` set xs = fst ` set (map id_name xs)"
  by (force simp: id_name_def)

lemma names_of_id_names: "e_name ` set xs = snd ` set (map id_name xs)"
  by (force simp: id_name_def)

lemma same_ids:
  assumes "set (map id_name A) = set (map id_name B)"
  shows "e_id ` set A = e_id ` set B" and "e_name ` set A = e_name ` set B"
  unfolding ids_of_id_names names_of_id_names using assms by simp_all

lemma id_name_filter:
  "set (map id_name (filter (\<lambda>e. P (e_id e)) xs)) = {p \<in> set (map id_name xs). P (fst p)}"
  by (auto simp: id_name_def)

lemma same_after_filter:
  assumes "set (map id_name A) = set (map id_name B)"
  shows "set (map id_name (filter (\<lambda>e. P (e_id e)) A))
       = set (map id_name (filter (\<lambda>e. P (e_id e)) B))"
  unfolding id_name_filter using assms by simp

lemma distinct_id_names:
  assumes "distinct (map e_id xs)" shows "distinct (map id_name xs)"
proof -
  have e: "map e_id xs = map fst (map id_name xs)"
    by (simp add: id_name_def comp_def)
  from assms have "distinct (map fst (map id_name xs))"
    by (simp only: e)
  then show ?thesis
    using distinct_map [of fst "map id_name xs"] by blast
qed

lemma same_length:
  assumes "set (map id_name A) = set (map id_name B)"
    and "distinct (map e_id A)" and "distinct (map e_id B)"
  shows "length A = length B"
proof -
  have "length A = card (set (map id_name A))"
    using distinct_card [OF distinct_id_names [OF assms(2)]] by simp
  also have "\<dots> = card (set (map id_name B))"
    by (simp only: assms(1))
  also have "\<dots> = length B"
    using distinct_card [OF distinct_id_names [OF assms(3)]] by simp
  finally show ?thesis .
qed

lemma names_distinct_transfer:
  assumes "set (map id_name A) = set (map id_name B)"
    and "distinct (map e_id A)" and "distinct (map e_id B)"
    and "distinct (map e_name A)"
  shows "distinct (map e_name B)"
proof -
  have "card (set (map e_name B)) = card (set (map e_name A))"
    using same_ids(2) [OF assms(1)] by simp
  also have "\<dots> = length (map e_name A)"
    using assms(4) by (rule distinct_card)
  also have "\<dots> = length (map e_name B)"
    using same_length [OF assms(1-3)] by simp
  finally show ?thesis
    by (rule card_distinct)
qed

lemma only_one_of_an_id:
  assumes "distinct (map e_id xs)" and "x \<in> set xs" and "y \<in> set xs" and "e_id x = e_id y"
  shows "x = y"
  using assms by (meson distinct_map inj_onD)

lemma kept_rows:
  assumes "set (map id_name R) = set (map id_name T)" and "distinct (map e_id R)"
    and "set K \<subseteq> set R"
  shows "filter (\<lambda>r. e_id r \<notin> e_id ` (set R - set K)) T
       = filter (\<lambda>r. e_id r \<in> e_id ` set K) T"
proof (rule filter_cong [OF refl])
  fix r assume "r \<in> set T"
  then have "e_id r \<in> e_id ` set R"
    using same_ids(1) [OF assms(1)] by blast
  then obtain x where x: "x \<in> set R" "e_id x = e_id r"
    by auto
  show "(e_id r \<notin> e_id ` (set R - set K)) = (e_id r \<in> e_id ` set K)"
  proof
    assume out: "e_id r \<notin> e_id ` (set R - set K)"
    have "x \<in> set K"
    proof (rule ccontr)
      assume "x \<notin> set K"
      with x(1) have "x \<in> set R - set K"
        by simp
      then have "e_id x \<in> e_id ` (set R - set K)"
        by (rule imageI)
      with x(2) out show False
        by simp
    qed
    then have "e_id x \<in> e_id ` set K"
      by (rule imageI)
    with x(2) show "e_id r \<in> e_id ` set K"
      by simp
  next
    assume "e_id r \<in> e_id ` set K"
    then obtain k where k: "k \<in> set K" "e_id k = e_id r"
      by auto
    show "e_id r \<notin> e_id ` (set R - set K)"
    proof
      assume "e_id r \<in> e_id ` (set R - set K)"
      then obtain y where y: "y \<in> set R" "y \<notin> set K" "e_id y = e_id r"
        by auto
      from k assms(3) have "k \<in> set R"
        by blast
      from only_one_of_an_id [OF assms(2) y(1) this] y(3) k(2) have "y = k"
        by simp
      with y(2) k(1) show False
        by simp
    qed
  qed
qed

lemma kept_id_names:
  assumes "set (map id_name R) = set (map id_name T)" and "distinct (map e_id R)"
    and "set K \<subseteq> set R"
  shows "set (map id_name (filter (\<lambda>r. e_id r \<in> e_id ` set K) T)) = set (map id_name K)"
proof -
  have "set (map id_name (filter (\<lambda>r. e_id r \<in> e_id ` set K) T))
      = set (map id_name (filter (\<lambda>r. e_id r \<in> e_id ` set K) R))"
    using same_after_filter [OF assms(1), of "\<lambda>i. i \<in> e_id ` set K"] by simp
  moreover have "set (filter (\<lambda>r. e_id r \<in> e_id ` set K) R) = set K"
  proof
    show "set (filter (\<lambda>r. e_id r \<in> e_id ` set K) R) \<subseteq> set K"
    proof
      fix x assume "x \<in> set (filter (\<lambda>r. e_id r \<in> e_id ` set K) R)"
      then obtain k where k: "x \<in> set R" "k \<in> set K" "e_id x = e_id k"
        by auto
      with assms(3) have "k \<in> set R"
        by blast
      from only_one_of_an_id [OF assms(2) k(1) this k(3)] k(2) show "x \<in> set K"
        by simp
    qed
    show "set K \<subseteq> set (filter (\<lambda>r. e_id r \<in> e_id ` set K) R)"
      using assms(3) by auto
  qed
  ultimately show ?thesis
    by simp
qed

lemma plain_ids_subset:
  assumes "list_all (\<lambda>emp. plain_id (e_id emp)) R" and "e_id ` set K \<subseteq> e_id ` set R"
  shows "list_all (\<lambda>emp. plain_id (e_id emp)) K"
  using assms by (force simp: list_all_iff)

subsection \<open>Deleting, loading and adding\<close>

lemma deleteEmployee_online:
  assumes "online w (sent w)" and "plain_id i"
  shows "employees (deleteEmployee w i) = filter (\<lambda>e. e_id e \<noteq> i) (employees w)"
    and "db_employees (server (deleteEmployee w i)) = filter (\<lambda>e. e_id e \<noteq> i) (db_employees (server w))"
    and "db_activities (server (deleteEmployee w i))
           = filter (\<lambda>r. r_employeeId r \<noteq> i) (db_activities (server w))"
    and "online (deleteEmployee w i) = online w" and "ids (deleteEmployee w i) = ids w"
    and "clock (deleteEmployee w i) = clock w" and "sent (deleteEmployee w i) = Suc (sent w)"
    and "employees_order (deleteEmployee w i) = employees_order w"
  using assms by (simp_all add: deleteEmployee_def delete_employee_def Let_def)

lemma delete_all_online:
  assumes "\<forall>n. online w n" and "\<forall>e \<in> set es. plain_id (e_id e)"
  shows "employees (delete_all w es) = filter (\<lambda>e. e_id e \<notin> e_id ` set es) (employees w)
       \<and> db_employees (server (delete_all w es))
           = filter (\<lambda>e. e_id e \<notin> e_id ` set es) (db_employees (server w))
       \<and> db_activities (server (delete_all w es))
           = filter (\<lambda>r. r_employeeId r \<notin> e_id ` set es) (db_activities (server w))
       \<and> online (delete_all w es) = online w \<and> ids (delete_all w es) = ids w
       \<and> clock (delete_all w es) = clock w \<and> sent (delete_all w es) = sent w + length es
       \<and> employees_order (delete_all w es) = employees_order w"
  using assms
proof (induction es arbitrary: w)
  case Nil
  show ?case by (simp add: delete_all_def)
next
  case (Cons x es)
  let ?w1 = "deleteEmployee w (e_id x)"
  have on: "online w (sent w)"
    using Cons.prems(1) by simp
  have px: "plain_id (e_id x)" and rest: "\<forall>e \<in> set es. plain_id (e_id e)"
    using Cons.prems(2) by simp_all
  note d = deleteEmployee_online [OF on px]
  have on1: "\<forall>n. online ?w1 n"
    using Cons.prems(1) by (simp add: d)
  have run: "delete_all w (x # es) = delete_all ?w1 es"
    by (simp add: delete_all_def)
  have f: "filter (\<lambda>e. e_id e \<notin> e_id ` set es) (filter (\<lambda>e. e_id e \<noteq> e_id x) xs)
         = filter (\<lambda>e. e_id e \<notin> e_id ` set (x # es)) xs" for xs :: "employee list"
    by (auto intro!: filter_cong)
  have g: "filter (\<lambda>r. r_employeeId r \<notin> e_id ` set es) (filter (\<lambda>r. r_employeeId r \<noteq> e_id x) rs)
         = filter (\<lambda>r. r_employeeId r \<notin> e_id ` set (x # es)) rs" for rs
    by (auto intro!: filter_cong)
  from Cons.IH [OF on1 rest] show ?case
    unfolding run d f g by simp
qed

lemma loadData_online:
  assumes "\<forall>n. online w n"
  shows "employees (loadData w) = employees_order w (sent w) (db_employees (server w))"
    and "server (loadData w) = server w" and "online (loadData w) = online w"
    and "ids (loadData w) = ids w" and "clock (loadData w) = clock w"
    and "sent (loadData w) = sent w + 2"
    and "employees_order (loadData w) = employees_order w"
  using assms by (simp_all add: loadData_def Let_def get_employees_def)

lemma roster_loaded_loadData:
  assumes on: "\<forall>n. online w n" and la: "lists_all (employees_order w (sent w))"
    and pk: "employees_pkey (server w)" and r: "roster_loaded w"
  shows "roster_loaded (loadData w)"
proof -
  let ?T = "db_employees (server w)"
  let ?L = "employees_order w (sent w) ?T"
  note l = loadData_online [OF on]
  have a: "distinct (map e_id ?L)"
    using lists_all_distinct_map [OF la] pk by (simp add: employees_pkey_def)
  have s: "set ?L = set ?T"
    by (rule lists_all_set [OF la])
  have b: "set (map id_name ?L) = set (map id_name ?T)"
    by (simp add: s)
  have same: "set (map id_name (employees w)) = set (map id_name ?T)"
    and plain: "list_all (\<lambda>emp. plain_id (e_id emp)) (employees w)"
    using r unfolding roster_loaded_def by blast+
  have "e_id ` set ?L \<subseteq> e_id ` set (employees w)"
    unfolding s same_ids(1) [OF same] by (rule subset_refl)
  with plain have c: "list_all (\<lambda>emp. plain_id (e_id emp)) ?L"
    by (rule plain_ids_subset)
  show ?thesis
    unfolding roster_loaded_def l(1) l(2) using a b c by blast
qed

lemma post_new_row:
  assumes "name \<notin> e_name ` set (db_employees d)" and "i \<notin> e_id ` set (db_employees d)"
    and "length i \<le> 255" and "length name \<le> 255" and "length ts \<le> 255"
  shows "post_employees \<lparr>b_id = JStr i, b_name = JStr name, b_email = JUndefined,
                          b_createdAt = JStr ts\<rparr> d
           = Some (d\<lparr>db_employees := db_employees d @
                       [\<lparr>e_id = i, e_name = name, e_email = Some '''', e_createdAt = None,
                         e_createdat = Some ts\<rparr>]\<rparr>)"
proof -
  have none: "filter (\<lambda>e. e_name e = name \<and> P e) (db_employees d) = []" for P
    using assms(1) by (auto simp: filter_empty_conv)
  have fresh: "\<not> list_ex (\<lambda>e. e_id e = i) (db_employees d)"
    using assms(2) by (auto simp: list_ex_iff)
  show ?thesis
    using fresh assms(3-5)
    by (simp add: post_employees_def Let_def none js_or_def)
qed

lemma addEmployee_new:
  assumes c: "creating w h" and r: "roster_loaded w" and pk: "employees_pkey (server w)"
    and h: "sent w < h"
    and nm: "trim name = name" "length name \<le> 255"
    and missing: "name \<notin> e_name ` set (employees w)"
  shows "db_employees (server (addEmployee w name)) = db_employees (server w) @
           [\<lparr>e_id = ids w (sent w), e_name = name, e_email = Some '''', e_createdAt = None,
             e_createdat = Some (now w)\<rparr>]"
    and "employees (addEmployee w name) = employees w @
           [\<lparr>e_id = ids w (sent w), e_name = name, e_email = None,
             e_createdAt = Some (now w), e_createdat = None\<rparr>]"
    and "db_activities (server (addEmployee w name)) = db_activities (server w)"
    and "creating (addEmployee w name) h" and "roster_loaded (addEmployee w name)"
    and "employees_pkey (server (addEmployee w name))"
    and "sent (addEmployee w name) = Suc (sent w)"
    and "employees_order (addEmployee w name) = employees_order w"
proof -
  let ?i = "ids w (sent w)"
  let ?d = "server w"
  have on: "online w (sent w)"
    using c by (simp add: creating_def)
  have fresh: "?i \<notin> e_id ` set (db_employees ?d)"
    using c h by (simp add: creating_def)
  have len: "length ?i \<le> 255" "length (now w) \<le> 255" and plain: "plain_id ?i"
    using c h by (simp_all add: creating_def now_def)
  have same: "set (map id_name (employees w)) = set (map id_name (db_employees ?d))"
    and dr: "distinct (map e_id (employees w))"
    and pr: "list_all (\<lambda>emp. plain_id (e_id emp)) (employees w)"
    using r by (simp_all add: roster_loaded_def)
  have miss: "name \<notin> e_name ` set (db_employees ?d)"
    using missing same_ids(2) [OF same] by simp
  have fresh_r: "?i \<notin> e_id ` set (employees w)"
    using fresh same_ids(1) [OF same] by simp
  note post = post_new_row [OF miss fresh len(1) nm(2) len(2)]
  have w': "addEmployee w name =
      w\<lparr>sent := Suc (sent w),
        server := ?d\<lparr>db_employees := db_employees ?d @
                       [\<lparr>e_id = ?i, e_name = name, e_email = Some '''', e_createdAt = None,
                         e_createdat = Some (now w)\<rparr>]\<rparr>,
        employees := employees w @
           [\<lparr>e_id = ?i, e_name = name, e_email = None, e_createdAt = Some (now w),
             e_createdat = None\<rparr>]\<rparr>"
    using on post by (simp add: addEmployee_def Let_def nm(1))
  show "db_employees (server (addEmployee w name)) = db_employees (server w) @
           [\<lparr>e_id = ids w (sent w), e_name = name, e_email = Some '''', e_createdAt = None,
             e_createdat = Some (now w)\<rparr>]"
    and "employees (addEmployee w name) = employees w @
           [\<lparr>e_id = ids w (sent w), e_name = name, e_email = None,
             e_createdAt = Some (now w), e_createdat = None\<rparr>]"
    and "db_activities (server (addEmployee w name)) = db_activities (server w)"
    and "sent (addEmployee w name) = Suc (sent w)"
    and "employees_order (addEmployee w name) = employees_order w"
    by (simp_all add: w')
  show "roster_loaded (addEmployee w name)"
    using same dr pr fresh_r plain by (simp add: w' roster_loaded_def id_name_def)
  show "employees_pkey (server (addEmployee w name))"
    using pk fresh by (simp add: w' employees_pkey_def)
  have later: "ids w n \<noteq> ?i" if "Suc (sent w) \<le> n" "n < h" for n
    using c that by (simp add: creating_def)
  show "creating (addEmployee w name) h"
    using c later by (auto simp: w' creating_def)
qed

lemma add_missing_result:
  assumes "creating w h" and "roster_loaded w" and "employees_pkey (server w)"
    and "distinct (map e_name (employees w))"
    and "\<forall>name \<in> set names. trim name = name \<and> length name \<le> 255"
    and "sent w + length names \<le> h"
  shows "creating (add_missing w names) h \<and> roster_loaded (add_missing w names)
       \<and> employees_pkey (server (add_missing w names))
       \<and> distinct (map e_name (employees (add_missing w names)))
       \<and> (\<exists>added. db_employees (server (add_missing w names)) = db_employees (server w) @ added
              \<and> (\<forall>e \<in> set added. e_name e \<in> set names
                                    \<and> e_name e \<notin> e_name ` set (employees w)))
       \<and> set names \<subseteq> e_name ` set (db_employees (server (add_missing w names)))
       \<and> db_activities (server (add_missing w names)) = db_activities (server w)
       \<and> employees_order (add_missing w names) = employees_order w
       \<and> e_name ` set (employees w) \<subseteq> e_name ` set (employees (add_missing w names))"
  using assms
proof (induction names arbitrary: w)
  case Nil
  show ?case
    using Nil.prems by (simp add: add_missing_def)
next
  case (Cons name names)
  define w1 where "w1 = (if list_ex (\<lambda>emp. e_name emp = name) (employees w) then w
                         else addEmployee w name)"
  have run: "add_missing w (name # names) = add_missing w1 names"
    by (simp add: add_missing_def w1_def)
  have nm: "trim name = name" "length name \<le> 255"
    and rest: "\<forall>n \<in> set names. trim n = n \<and> length n \<le> 255"
    using Cons.prems(5) by simp_all
  have h: "sent w < h"
    using Cons.prems(6) by simp
  have step: "creating w1 h \<and> sent w1 \<le> Suc (sent w) \<and> roster_loaded w1
       \<and> employees_pkey (server w1)
       \<and> distinct (map e_name (employees w1))
       \<and> (\<exists>added. db_employees (server w1) = db_employees (server w) @ added
              \<and> (\<forall>e \<in> set added. e_name e = name \<and> e_name e \<notin> e_name ` set (employees w)))
       \<and> name \<in> e_name ` set (db_employees (server w1))
       \<and> db_activities (server w1) = db_activities (server w)
       \<and> employees_order w1 = employees_order w
       \<and> e_name ` set (employees w) \<subseteq> e_name ` set (employees w1)"
  proof (cases "list_ex (\<lambda>emp. e_name emp = name) (employees w)")
    case True
    then have "name \<in> e_name ` set (employees w)"
      by (auto simp: list_ex_iff)
    then have "name \<in> e_name ` set (db_employees (server w))"
      using same_ids(2) [of "employees w" "db_employees (server w)"] Cons.prems(2)
      by (simp add: roster_loaded_def)
    then show ?thesis
      using True Cons.prems(1-4) by (simp add: w1_def)
  next
    case False
    then have missing: "name \<notin> e_name ` set (employees w)"
      by (auto simp: list_ex_iff)
    note a = addEmployee_new [OF Cons.prems(1,2,3) h nm missing]
    have "distinct (map e_name (employees (addEmployee w name)))"
      using Cons.prems(4) missing by (simp add: a(2))
    then show ?thesis
      using False a missing by (auto simp: w1_def)
  qed
  from step obtain added1 where
    s1: "creating w1 h" "roster_loaded w1" "employees_pkey (server w1)"
      "distinct (map e_name (employees w1))"
      "db_employees (server w1) = db_employees (server w) @ added1"
      "\<forall>e \<in> set added1. e_name e = name \<and> e_name e \<notin> e_name ` set (employees w)"
      "name \<in> e_name ` set (db_employees (server w1))"
      "db_activities (server w1) = db_activities (server w)"
      "sent w1 \<le> Suc (sent w)"
      "employees_order w1 = employees_order w"
      "e_name ` set (employees w) \<subseteq> e_name ` set (employees w1)"
    by blast
  have h1: "sent w1 + length names \<le> h"
    using s1(9) Cons.prems(6) by simp
  from Cons.IH [OF s1(1,2,3,4) rest h1] obtain added2 where
    s2: "creating (add_missing w1 names) h" "roster_loaded (add_missing w1 names)"
      "employees_pkey (server (add_missing w1 names))"
      "distinct (map e_name (employees (add_missing w1 names)))"
      "db_employees (server (add_missing w1 names)) = db_employees (server w1) @ added2"
      "\<forall>e \<in> set added2. e_name e \<in> set names \<and> e_name e \<notin> e_name ` set (employees w1)"
      "set names \<subseteq> e_name ` set (db_employees (server (add_missing w1 names)))"
      "db_activities (server (add_missing w1 names)) = db_activities (server w1)"
      "employees_order (add_missing w1 names) = employees_order w1"
      "e_name ` set (employees w1) \<subseteq> e_name ` set (employees (add_missing w1 names))"
    by blast
  have all: "db_employees (server (add_missing w1 names)) = db_employees (server w) @ (added1 @ added2)"
    by (simp add: s2(5) s1(5))
  have names_added: "\<forall>e \<in> set (added1 @ added2).
      e_name e \<in> set (name # names) \<and> e_name e \<notin> e_name ` set (employees w)"
  proof
    fix e assume "e \<in> set (added1 @ added2)"
    then consider "e \<in> set added1" | "e \<in> set added2"
      by auto
    then show "e_name e \<in> set (name # names) \<and> e_name e \<notin> e_name ` set (employees w)"
    proof cases
      case 1
      with s1(6) have "e_name e = name" "e_name e \<notin> e_name ` set (employees w)"
        by blast+
      then show ?thesis
        by simp
    next
      case 2
      with s2(6) have "e_name e \<in> set names" "e_name e \<notin> e_name ` set (employees w1)"
        by blast+
      with s1(11) show ?thesis
        by auto
    qed
  qed
  have ex: "\<exists>added. db_employees (server (add_missing w1 names)) = db_employees (server w) @ added
              \<and> (\<forall>e \<in> set added. e_name e \<in> set (name # names)
                                    \<and> e_name e \<notin> e_name ` set (employees w))"
    using all names_added by blast
  have here: "name \<in> e_name ` set (db_employees (server (add_missing w1 names)))"
    using s1(7) by (auto simp: s2(5))
  have sub: "set (name # names) \<subseteq> e_name ` set (db_employees (server (add_missing w1 names)))"
    using here s2(7) by simp
  have acts: "db_activities (server (add_missing w1 names)) = db_activities (server w)"
    by (simp add: s2(8) s1(8))
  have ord: "employees_order (add_missing w1 names) = employees_order w"
    by (simp add: s2(9) s1(10))
  have grow: "e_name ` set (employees w) \<subseteq> e_name ` set (employees (add_missing w1 names))"
    using s1(11) s2(10) by blast
  show ?case
    unfolding run
    using s2(1,2,3,4) ex sub acts ord grow by (intro conjI) assumption+
qed

subsection \<open>The two reconciliations\<close>

lemma duplicates_subset: "set (duplicates seen xs) \<subseteq> set xs"
  using duplicates_or_kept [of xs seen] by blast

lemma duplicates_not_kept:
  assumes "distinct xs"
  shows "set (duplicates seen xs) \<inter> set (keep_first seen xs) = {}"
  using assms
proof (induction xs arbitrary: seen)
  case Nil
  then show ?case by simp
next
  case (Cons x xs)
  have a: "x \<notin> set (duplicates s xs)" and b: "x \<notin> set (keep_first s xs)" for s
    using Cons.prems duplicates_subset [of s xs] keep_first_subset [of s xs] by auto
  show ?case
    using Cons.IH [of seen] Cons.IH [of "insert (e_name x) seen"] Cons.prems a b by auto
qed

lemma distinct_ids_distinct:
  assumes "distinct (map e_id xs)" shows "distinct xs"
  using assms by (simp add: distinct_map)

lemma removed_ids:
  assumes "distinct (map e_id xs)"
  shows "e_id ` (set xs - set (keep_first seen xs)) = e_id ` set (duplicates seen xs)"
proof -
  have "set xs - set (keep_first seen xs) = set (duplicates seen xs)"
    using duplicates_or_kept [of xs seen]
      duplicates_not_kept [OF distinct_ids_distinct [OF assms], of seen]
    by blast
  then show ?thesis
    by simp
qed

lemma keep_first_distinct_ids:
  assumes "distinct (map e_id xs)" shows "distinct (map e_id (keep_first seen xs))"
  using assms filter_duplicates [OF assms, of seen, symmetric]
  by (simp add: distinct_map_filter)

lemma no_duplicates_keep_all:
  assumes "duplicates seen xs = []" shows "keep_first seen xs = xs"
  using assms by (induction xs arbitrary: seen) (auto split: if_splits)

lemma find_first_Dhivyaharini:
  assumes "distinct (map e_id xs)"
    and "find (\<lambda>emp. e_name emp = ''Dhivyaharini'') xs = Some d"
  shows "set xs = insert d (set (without_first_Dhivyaharini xs))"
    and "d \<notin> set (without_first_Dhivyaharini xs)"
proof -
  have d: "d \<in> set xs"
    using assms(2) by (auto simp: find_Some_iff)
  have only: "e = d" if "e \<in> set xs" "e_id e = e_id d" for e
    using assms(1) d that by (meson distinct_map inj_onD)
  show "set xs = insert d (set (without_first_Dhivyaharini xs))"
    using d only by (auto simp: without_first_Dhivyaharini_def assms(2))
  show "d \<notin> set (without_first_Dhivyaharini xs)"
    by (simp add: without_first_Dhivyaharini_def assms(2))
qed

lemma distinct_without_first:
  assumes "distinct (map e_id xs)"
  shows "distinct (map e_id (without_first_Dhivyaharini xs))"
  using assms by (simp add: without_first_Dhivyaharini_def distinct_map_filter split: option.splits)

lemma without_first_subset: "set (without_first_Dhivyaharini xs) \<subseteq> set xs"
  by (auto simp: without_first_Dhivyaharini_def split: option.splits)

text \<open>Steps 1 and 2 of the second manager.\<close>

lemma remove_steps_raf:
  assumes on: "\<forall>n. online w n" and r: "roster_loaded w"
  defines "w1 \<equiv> (case find (\<lambda>emp. e_name emp = ''Dhivyaharini'') (employees w) of
                    None \<Rightarrow> w | Some empToDelete \<Rightarrow> deleteEmployee w (e_id empToDelete))"
  defines "w2 \<equiv> delete_all w1 (duplicates {} (employees w1))"
  defines "K \<equiv> keep_first {} (without_first_Dhivyaharini (employees w))"
  shows "employees w2 = K"
    and "db_employees (server w2)
           = filter (\<lambda>r. e_id r \<in> e_id ` set K) (db_employees (server w))"
    and "db_activities (server w2)
           = filter (\<lambda>r. r_employeeId r \<notin> e_id ` (set (employees w) - set K))
               (db_activities (server w))"
    and "online w2 = online w" and "ids w2 = ids w" and "clock w2 = clock w"
    and "employees_order w2 = employees_order w"
    and "sent w \<le> sent w2" and "sent w2 \<le> sent w + length (employees w) + 1"
proof -
  let ?R = "employees w"
  let ?T = "db_employees (server w)"
  let ?R1 = "without_first_Dhivyaharini ?R"
  let ?gone = "(case find (\<lambda>emp. e_name emp = ''Dhivyaharini'') ?R of
                  None \<Rightarrow> {} | Some d \<Rightarrow> {e_id d})"
  have same: "set (map id_name ?R) = set (map id_name ?T)"
    and pk: "distinct (map e_id ?R)"
    and plain: "\<forall>e \<in> set ?R. plain_id (e_id e)"
    using r by (simp_all add: roster_loaded_def list_all_iff)
  have on0: "online w (sent w)"
    using on by simp
  have pd: "plain_id (e_id d)" if "find (\<lambda>emp. e_name emp = ''Dhivyaharini'') ?R = Some d" for d
  proof -
    from that have "d \<in> set ?R"
      by (auto simp: find_Some_iff)
    with plain show ?thesis
      by blast
  qed
  have w1: "employees w1 = ?R1"
    "db_employees (server w1) = filter (\<lambda>r. e_id r \<notin> ?gone) ?T"
    "db_activities (server w1) = filter (\<lambda>r. r_employeeId r \<notin> ?gone) (db_activities (server w))"
    "online w1 = online w" "ids w1 = ids w" "clock w1 = clock w"
    "employees_order w1 = employees_order w" "sent w \<le> sent w1"
    "sent w1 \<le> Suc (sent w)"
    using deleteEmployee_online [OF on0 pd]
    by (simp_all add: w1_def without_first_Dhivyaharini_def split: option.splits)
  have on1: "\<forall>n. online w1 n"
    using on by (simp add: w1)
  have d1: "distinct (map e_id ?R1)"
    using pk by (rule distinct_without_first)
  have pl1: "\<forall>e \<in> set (duplicates {} (employees w1)). plain_id (e_id e)"
    using plain duplicates_subset [of "{}" ?R1] without_first_subset [of ?R]
    by (auto simp: w1(1))
  note da = delete_all_online [OF on1 pl1]
  show "employees w2 = K"
    using da by (simp add: w2_def K_def w1 filter_duplicates [OF d1])
  show "online w2 = online w" "ids w2 = ids w" "clock w2 = clock w"
    "employees_order w2 = employees_order w" "sent w \<le> sent w2"
    using da w1(4-8) by (simp_all add: w2_def)
  have "length (duplicates {} ?R1) \<le> length ?R"
  proof -
    have "length (duplicates s xs) \<le> length xs" for s and xs :: "employee list"
      by (induction xs arbitrary: s) (auto simp: le_SucI)
    moreover have "length ?R1 \<le> length ?R"
      by (simp add: without_first_Dhivyaharini_def split: option.splits)
    ultimately show ?thesis
      using le_trans by blast
  qed
  then show "sent w2 \<le> sent w + length (employees w) + 1"
    using da w1(9) by (simp add: w2_def w1(1))
  have gone: "e_id ` (set ?R - set K) = ?gone \<union> e_id ` set (duplicates {} ?R1)"
  proof (cases "find (\<lambda>emp. e_name emp = ''Dhivyaharini'') ?R")
    case None
    then have "?R1 = ?R"
      by (simp add: without_first_Dhivyaharini_def)
    then show ?thesis
      using removed_ids [OF pk, of "{}"] None by (simp add: K_def)
  next
    case (Some d)
    note f = find_first_Dhivyaharini [OF pk Some]
    have "d \<notin> set K"
      using f(2) keep_first_subset [of "{}" ?R1] by (auto simp: K_def)
    then have "set ?R - set K = insert d (set ?R1 - set K)"
      using f by auto
    then show ?thesis
      using removed_ids [OF d1, of "{}"] Some by (simp add: K_def)
  qed
  have KR: "set K \<subseteq> set ?R"
    using keep_first_subset [of "{}" ?R1] without_first_subset [of ?R] by (auto simp: K_def)
  have "db_employees (server w2)
      = filter (\<lambda>r. e_id r \<notin> e_id ` set (duplicates {} ?R1))
          (filter (\<lambda>r. e_id r \<notin> ?gone) ?T)"
    using da by (simp add: w2_def w1)
  also have "\<dots> = filter (\<lambda>r. e_id r \<notin> e_id ` (set ?R - set K)) ?T"
    unfolding gone by (auto intro!: filter_cong)
  also have "\<dots> = filter (\<lambda>r. e_id r \<in> e_id ` set K) ?T"
    by (rule kept_rows [OF same pk KR])
  finally show "db_employees (server w2)
           = filter (\<lambda>r. e_id r \<in> e_id ` set K) (db_employees (server w))" .
  have "db_activities (server w2)
      = filter (\<lambda>r. r_employeeId r \<notin> e_id ` set (duplicates {} ?R1))
          (filter (\<lambda>r. r_employeeId r \<notin> ?gone) (db_activities (server w)))"
    using da by (simp add: w2_def w1)
  also have "\<dots> = filter (\<lambda>r. r_employeeId r \<notin> e_id ` (set ?R - set K)) (db_activities (server w))"
    unfolding gone by (auto intro!: filter_cong)
  finally show "db_activities (server w2)
           = filter (\<lambda>r. r_employeeId r \<notin> e_id ` (set ?R - set K)) (db_activities (server w))" .
qed

lemma allowed_names_plain:
  "\<forall>name \<in> set allowedEmployees. trim name = name \<and> length name \<le> 255"
  by (simp add: allowedEmployees_def trim_def is_space_def)

text \<open>
  A roster of employees kept from \<open>R\<close>, and the table with the rows of their ids: the
  roster is loaded again.
\<close>

lemma kept_roster_loaded:
  assumes r: "roster_loaded w" and pk: "employees_pkey (server w)"
    and K: "set K \<subseteq> set (employees w)" "distinct (map e_id K)"
    and w2: "employees w2 = K"
      "db_employees (server w2) = filter (\<lambda>r. e_id r \<in> e_id ` set K) (db_employees (server w))"
  shows "roster_loaded w2" and "employees_pkey (server w2)"
proof -
  have same: "set (map id_name (employees w)) = set (map id_name (db_employees (server w)))"
    and dr: "distinct (map e_id (employees w))"
    and plain: "list_all (\<lambda>emp. plain_id (e_id emp)) (employees w)"
    using r by (simp_all add: roster_loaded_def)
  have a: "set (map id_name K)
         = set (map id_name (filter (\<lambda>r. e_id r \<in> e_id ` set K) (db_employees (server w))))"
    using kept_id_names [OF same dr K(1)] by simp
  have "e_id ` set K \<subseteq> e_id ` set (employees w)"
    using K(1) by blast
  with plain have b: "list_all (\<lambda>emp. plain_id (e_id emp)) K"
    by (rule plain_ids_subset)
  show "roster_loaded w2"
    using a b K(2) by (simp add: roster_loaded_def w2)
  show "employees_pkey (server w2)"
    using pk by (simp add: employees_pkey_def w2 distinct_map_filter)
qed

lemma sync_raf_result:
  assumes c: "creating w h" and r: "roster_loaded w" and pk: "employees_pkey (server w)"
    and h: "sent w + length (employees w) + 20 \<le> h"
  defines "K \<equiv> keep_first {} (without_first_Dhivyaharini (employees w))"
  defines "w' \<equiv> syncEmployees_raf w"
  shows "\<exists>n. employees w' = get_employees (employees_order w n) (server w')"
    and "distinct (map e_name (employees w'))"
    and "\<exists>added. db_employees (server w')
                    = filter (\<lambda>r. e_id r \<in> e_id ` set K) (db_employees (server w)) @ added
                \<and> (\<forall>e \<in> set added. e_name e \<in> set allowedEmployees
                                      \<and> e_name e \<notin> e_name ` set K)"
    and "set allowedEmployees \<subseteq> e_name ` set (employees w')"
    and "db_activities (server w')
           = filter (\<lambda>r. r_employeeId r \<notin> e_id ` (set (employees w) - set K))
               (db_activities (server w))"
proof -
  let ?R = "employees w"
  let ?T = "db_employees (server w)"
  have on: "\<forall>n. online w n" and la: "\<forall>n. lists_all (employees_order w n)"
    using c by (simp_all add: creating_def)
  define w2 where "w2 = delete_all
      (case find (\<lambda>emp. e_name emp = ''Dhivyaharini'') (employees w) of
         None \<Rightarrow> w | Some empToDelete \<Rightarrow> deleteEmployee w (e_id empToDelete))
      (duplicates {}
        (employees (case find (\<lambda>emp. e_name emp = ''Dhivyaharini'') (employees w) of
           None \<Rightarrow> w | Some empToDelete \<Rightarrow> deleteEmployee w (e_id empToDelete))))"
  note r2 = remove_steps_raf [OF on r, folded w2_def, folded K_def]
  have dr: "distinct (map e_id ?R)"
    using r by (simp add: roster_loaded_def)
  have KR: "set K \<subseteq> set ?R"
    using keep_first_subset [of "{}" "without_first_Dhivyaharini ?R"]
      without_first_subset [of ?R] by (auto simp: K_def)
  have dK: "distinct (map e_id K)"
    unfolding K_def by (intro keep_first_distinct_ids distinct_without_first dr)
  note k2 = kept_roster_loaded [OF r pk KR dK r2(1,2)]
  have on2: "\<forall>n. online w2 n"
    using on by (simp add: r2)
  define w3 where "w3 = loadData w2"
  note l3 = loadData_online [OF on2, folded w3_def]
  have la2: "lists_all (employees_order w2 (sent w2))"
    using la by (simp add: r2)
  have rl3: "roster_loaded w3"
    unfolding w3_def by (rule roster_loaded_loadData [OF on2 la2 k2(2) k2(1)])
  have pk3: "employees_pkey (server w3)"
    using k2(2) by (simp add: l3)
  have "distinct (map e_name (db_employees (server w2)))"
  proof (rule names_distinct_transfer [of K])
    show "set (map id_name K) = set (map id_name (db_employees (server w2)))"
      using k2(1) by (simp add: roster_loaded_def r2(1))
    show "distinct (map e_id K)"
      by (rule dK)
    show "distinct (map e_id (db_employees (server w2)))"
      using k2(2) by (simp add: employees_pkey_def)
    show "distinct (map e_name K)"
      by (simp add: K_def keep_first_distinct)
  qed
  then have dn3: "distinct (map e_name (employees w3))"
    using lists_all_distinct_map [OF la2] by (simp add: l3)
  have names3: "e_name ` set (employees w3) = e_name ` set K"
  proof -
    have "set (employees w3) = set (db_employees (server w2))"
      by (simp add: l3 lists_all_set [OF la2])
    moreover have "e_name ` set (db_employees (server w2)) = e_name ` set K"
      using same_ids(2) [of K "db_employees (server w2)"] k2(1)
      by (simp add: roster_loaded_def r2(1))
    ultimately show ?thesis
      by simp
  qed
  have sub2: "set (db_employees (server w2)) \<subseteq> set ?T"
    by (auto simp: r2(2))
  have fresh3: "ids w n \<notin> e_id ` set (db_employees (server w2))" if "sent w2 + 2 \<le> n" "n < h" for n
  proof -
    from that r2(8) have "sent w \<le> n"
      by simp
    with c that(2) have "ids w n \<notin> e_id ` set ?T"
      by (simp add: creating_def)
    with sub2 show ?thesis
      by blast
  qed
  have later3: "plain_id (ids w n) \<and> length (ids w n) \<le> 255
      \<and> (\<forall>m. n < m \<and> m < h \<longrightarrow> ids w m \<noteq> ids w n)" if "sent w2 + 2 \<le> n" "n < h" for n
  proof -
    from that r2(8) have "sent w \<le> n"
      by simp
    with c that(2) show ?thesis
      by (simp add: creating_def)
  qed
  have c3: "creating w3 h"
    using c fresh3 later3 by (simp add: creating_def l3 r2(4-7))
  have h3: "sent w3 + length allowedEmployees \<le> h"
    using h r2(9) by (simp add: l3 allowedEmployees_def)
  define w4 where "w4 = add_missing w3 allowedEmployees"
  from add_missing_result [OF c3 rl3 pk3 dn3 allowed_names_plain h3, folded w4_def]
  obtain added where a0:
    "creating w4 h" "roster_loaded w4" "employees_pkey (server w4)"
    "distinct (map e_name (employees w4))"
    "db_employees (server w4) = db_employees (server w3) @ added"
    "\<forall>e \<in> set added. e_name e \<in> set allowedEmployees
                        \<and> e_name e \<notin> e_name ` set (employees w3)"
    "set allowedEmployees \<subseteq> e_name ` set (db_employees (server w4))"
    "db_activities (server w4) = db_activities (server w3)"
    "employees_order w4 = employees_order w3"
    by blast
  have a: "creating w4 h" "roster_loaded w4" "employees_pkey (server w4)"
    "distinct (map e_name (employees w4))"
    "db_employees (server w4) = db_employees (server w2) @ added"
    "\<forall>e \<in> set added. e_name e \<in> set allowedEmployees \<and> e_name e \<notin> e_name ` set K"
    "set allowedEmployees \<subseteq> e_name ` set (db_employees (server w4))"
    "db_activities (server w4) = db_activities (server w2)"
    "employees_order w4 = employees_order w"
    using a0 by (simp_all only: names3 l3(2,7) r2(7))
  have on4: "\<forall>n. online w4 n"
    using a(1) by (simp add: creating_def)
  have la4: "lists_all (employees_order w4 (sent w4))"
    using la by (simp add: a(9))
  have w': "w' = loadData w4"
    unfolding w'_def syncEmployees_raf_def Let_def w4_def w3_def w2_def by (rule refl)
  note l5 = loadData_online [OF on4, folded w']
  have e5: "employees w' = employees_order w (sent w4) (db_employees (server w'))"
    by (simp add: l5 a(9))
  then show "\<exists>n. employees w' = get_employees (employees_order w n) (server w')"
    by (auto simp: get_employees_def)
  have "distinct (map e_name (db_employees (server w4)))"
  proof (rule names_distinct_transfer [of "employees w4"])
    show "set (map id_name (employees w4)) = set (map id_name (db_employees (server w4)))"
      and "distinct (map e_id (employees w4))"
      using a(2) by (simp_all add: roster_loaded_def)
    show "distinct (map e_id (db_employees (server w4)))"
      using a(3) by (simp add: employees_pkey_def)
    show "distinct (map e_name (employees w4))"
      by (rule a(4))
  qed
  then show "distinct (map e_name (employees w'))"
    using lists_all_distinct_map [OF la4] by (simp add: l5)
  show "\<exists>added. db_employees (server w')
                    = filter (\<lambda>r. e_id r \<in> e_id ` set K) (db_employees (server w)) @ added
                \<and> (\<forall>e \<in> set added. e_name e \<in> set allowedEmployees
                                      \<and> e_name e \<notin> e_name ` set K)"
    using a(5,6) by (auto simp: l5 r2(2))
  show "set allowedEmployees \<subseteq> e_name ` set (employees w')"
    using a(7) by (simp add: l5 lists_all_set [OF la4])
  show "db_activities (server w')
           = filter (\<lambda>r. r_employeeId r \<notin> e_id ` (set (employees w) - set K))
               (db_activities (server w))"
    by (simp add: l5 a(8) r2(3))
qed

lemma sync_result:
  assumes on: "\<forall>n. online w n" and la: "\<forall>n. lists_all (employees_order w n)"
    and r: "roster_loaded w" and pk: "employees_pkey (server w)"
  defines "K \<equiv> keep_first {} (employees w)"
  defines "w' \<equiv> syncEmployees w"
  shows "db_employees (server w')
           = filter (\<lambda>r. e_id r \<in> e_id ` set K) (db_employees (server w))"
    and "db_activities (server w')
           = filter (\<lambda>r. r_employeeId r \<notin> e_id ` (set (employees w) - set K))
               (db_activities (server w))"
    and "set (map id_name (employees w')) = set (map id_name K)"
    and "distinct (map e_name (employees w'))"
    and "duplicates {} (employees w) = [] \<Longrightarrow> w' = w"
    and "duplicates {} (employees w) \<noteq> [] \<Longrightarrow>
           \<exists>n. employees w' = get_employees (employees_order w n) (server w')"
proof -
  let ?R = "employees w"
  let ?T = "db_employees (server w)"
  have same: "set (map id_name ?R) = set (map id_name ?T)"
    and dr: "distinct (map e_id ?R)"
    and plain: "\<forall>e \<in> set ?R. plain_id (e_id e)"
    using r by (simp_all add: roster_loaded_def list_all_iff)
  have KR: "set K \<subseteq> set ?R"
    using keep_first_subset [of "{}" ?R] by (simp add: K_def)
  have dK: "distinct (map e_id K)"
    unfolding K_def by (rule keep_first_distinct_ids [OF dr])
  define w1 where "w1 = delete_all w (duplicates {} ?R)"
  have pl: "\<forall>e \<in> set (duplicates {} ?R). plain_id (e_id e)"
    using plain duplicates_subset [of "{}" ?R] by blast
  note da = delete_all_online [OF on pl, folded w1_def]
  have on1: "\<forall>n. online w1 n"
    using on da by simp
  have e1: "employees w1 = K"
    using da by (simp add: filter_duplicates [OF dr] K_def)
  have t1: "db_employees (server w1) = filter (\<lambda>r. e_id r \<in> e_id ` set K) ?T"
  proof -
    have "db_employees (server w1)
        = filter (\<lambda>r. e_id r \<notin> e_id ` (set ?R - set K)) ?T"
      using da by (simp add: removed_ids [OF dr] K_def)
    then show ?thesis
      by (simp only: kept_rows [OF same dr KR])
  qed
  have a1: "db_activities (server w1)
           = filter (\<lambda>r. r_employeeId r \<notin> e_id ` (set ?R - set K)) (db_activities (server w))"
    using da by (simp add: removed_ids [OF dr] K_def)
  note k1 = kept_roster_loaded [OF r pk KR dK e1 t1]
  have w': "w' = (if duplicates {} ?R \<noteq> [] then loadData w1 else w1)"
    unfolding w'_def syncEmployees_def Let_def w1_def by (rule refl)
  note l2 = loadData_online [OF on1]
  have la1: "lists_all (employees_order w1 (sent w1))"
    using la da by simp
  show "db_employees (server w')
           = filter (\<lambda>r. e_id r \<in> e_id ` set K) (db_employees (server w))"
    and "db_activities (server w')
           = filter (\<lambda>r. r_employeeId r \<notin> e_id ` (set (employees w) - set K))
               (db_activities (server w))"
    by (simp_all add: w' l2 t1 a1)
  have loaded: "roster_loaded w'"
    using k1(1) roster_loaded_loadData [OF on1 la1 k1(2) k1(1)] by (simp add: w')
  have srv: "server w' = server w1"
    by (simp add: w' l2)
  have t: "set (map id_name (db_employees (server w1))) = set (map id_name K)"
    using k1(1) by (simp add: roster_loaded_def e1)
  show "set (map id_name (employees w')) = set (map id_name K)"
    using loaded t by (simp add: roster_loaded_def srv)
  show "distinct (map e_name (employees w'))"
  proof (rule names_distinct_transfer [of K])
    show "set (map id_name K) = set (map id_name (employees w'))"
      using loaded t by (simp add: roster_loaded_def srv)
    show "distinct (map e_id K)"
      by (rule dK)
    show "distinct (map e_id (employees w'))"
      using loaded by (simp add: roster_loaded_def)
    show "distinct (map e_name K)"
      by (simp add: K_def keep_first_distinct)
  qed
  show "duplicates {} (employees w) = [] \<Longrightarrow> w' = w"
    by (simp add: w' w1_def delete_all_def)
  show "duplicates {} (employees w) \<noteq> [] \<Longrightarrow>
           \<exists>n. employees w' = get_employees (employees_order w n) (server w')"
  proof -
    assume "duplicates {} (employees w) \<noteq> []"
    then have "employees w' = employees_order w (sent w1) (db_employees (server w'))"
      using da by (simp add: w' l2)
    then show ?thesis
      by (auto simp: get_employees_def)
  qed
qed

lemma roster_world_facts:
  "server roster_world = roster_db" "sent roster_world = 0"
  "employees roster_world = [anitha, anitha_again, zed]"
  "db_employees roster_db = [anitha, anitha_again, zed]"
  "employees_order roster_world n = sort_by_name"
  by (simp_all add: roster_world_def example_world_def roster_db_def)

lemma plain_generated: "plain_id (CHR ''n'' # replicate n CHR ''n'')"
  by (simp add: plain_id_def list_all_iff)

lemma roster_world_creating: "creating roster_world 23"
  by (simp add: creating_def roster_world_def example_world_def roster_db_def anitha_def
      anitha_again_def zed_def plain_generated sort_by_name_lists_all)

lemma roster_db_pkey: "employees_pkey roster_db"
  by (simp add: employees_pkey_def roster_db_def anitha_def anitha_again_def zed_def)

lemma roster_world_loaded: "roster_loaded roster_world"
  by (simp add: roster_loaded_def roster_world_facts)
     (simp add: anitha_def anitha_again_def zed_def plain_id_def)

lemma roster_kept:
  "keep_first {} [anitha, anitha_again, zed] = [anitha, zed]"
  "keep_first {} (without_first_Dhivyaharini [anitha, anitha_again, zed]) = [anitha, zed]"
  "duplicates {} [anitha, anitha_again, zed] = [anitha_again]"
  by (simp_all add: without_first_Dhivyaharini_def anitha_def anitha_again_def zed_def)

lemma roster_removed:
  "e_id ` (set [anitha, anitha_again, zed] - set [anitha, zed]) = {''a2''}"
proof -
  have "set [anitha, anitha_again, zed] - set [anitha, zed] = {anitha_again}"
    by (auto simp: anitha_def anitha_again_def zed_def)
  then show ?thesis
    by (simp add: anitha_again_def)
qed

lemma roster_rows_left:
  "filter (\<lambda>r. r_employeeId r \<notin> e_id ` (set [anitha, anitha_again, zed] - set [anitha, zed]))
     (db_activities roster_db) = [example_row\<lparr>r_employeeId := ''z''\<rparr>]"
  unfolding roster_removed by (simp add: roster_db_def)

lemma roster_employees_left:
  "filter (\<lambda>r. e_id r \<in> e_id ` set [anitha, zed]) [anitha, anitha_again, zed] = [anitha, zed]"
  by (simp add: anitha_def anitha_again_def zed_def)

lemma roster_sorted: "sort_by_name [anitha, zed] = [anitha, zed]"
  by (simp add: sort_by_name_def anitha_def zed_def)

lemma zed_not_allowed: "e_name zed \<notin> set allowedEmployees"
  by (simp add: zed_def allowedEmployees_def)

text \<open>
  C8, as the two managers reconcile. The roster of the client lists the employees of the
  table, in any order; every request is answered and every response lists the table;
  the ids are plain and unique, and the ids generated meanwhile are new. In both
  managers the duplicates are those that are not the first of their name in the order
  the roster has when the reconciliation starts.

  \<open>src/script.js\<close> removes them: the table keeps the rows of the employees that
  \<open>keep_first\<close> keeps, with their ids, and loses the activity rows of the others; the
  roster lists those employees, by id and name, and has no name twice. Without a
  duplicate nothing happens at all; with one, the roster ends as a response of the
  server, in the order of that response.

  The second manager first removes the first employee named \<open>Dhivyaharini\<close>, then the
  duplicates, and then creates an employee for every name of \<open>allowedEmployees\<close> that is
  missing: the table keeps the rows of the employees kept, followed by new rows with
  names of \<open>allowedEmployees\<close> that no employee kept has; the roster ends as a response
  of the server, has no name twice and has every name of \<open>allowedEmployees\<close>; the activity
  rows of the removed employees are gone and all others stay. No employee is removed for
  not being in \<open>allowedEmployees\<close>, and no name is normalized.

  The last conjunct says what \<open>keep_first\<close> keeps: the names of the list, each once, and
  of each name the employee that \<open>find\<close> meets first.
\<close>

theorem sync_keeps_first_and_creates_missing:
  assumes "creating w h" and "roster_loaded w" and "employees_pkey (server w)"
    and "sent w + length (employees w) + 20 \<le> h"
  shows "db_employees (server (syncEmployees w))
           = filter (\<lambda>r. e_id r \<in> e_id ` set (keep_first {} (employees w)))
               (db_employees (server w))
       \<and> db_activities (server (syncEmployees w))
           = filter (\<lambda>r. r_employeeId r \<notin> e_id ` (set (employees w)
                                                   - set (keep_first {} (employees w))))
               (db_activities (server w))
       \<and> set (map id_name (employees (syncEmployees w)))
           = set (map id_name (keep_first {} (employees w)))
       \<and> distinct (map e_name (employees (syncEmployees w)))
       \<and> (duplicates {} (employees w) = [] \<longrightarrow> syncEmployees w = w)
       \<and> (duplicates {} (employees w) \<noteq> [] \<longrightarrow>
            (\<exists>n. employees (syncEmployees w)
                    = get_employees (employees_order w n) (server (syncEmployees w))))
       \<and> (\<exists>n. employees (syncEmployees_raf w)
                 = get_employees (employees_order w n) (server (syncEmployees_raf w)))
       \<and> distinct (map e_name (employees (syncEmployees_raf w)))
       \<and> (\<exists>added. db_employees (server (syncEmployees_raf w))
                     = filter (\<lambda>r. e_id r \<in> e_id ` set (keep_first {}
                                  (without_first_Dhivyaharini (employees w))))
                         (db_employees (server w)) @ added
                 \<and> (\<forall>e \<in> set added. e_name e \<in> set allowedEmployees
                       \<and> e_name e \<notin> e_name ` set (keep_first {}
                                          (without_first_Dhivyaharini (employees w)))))
       \<and> set allowedEmployees \<subseteq> e_name ` set (employees (syncEmployees_raf w))
       \<and> db_activities (server (syncEmployees_raf w))
           = filter (\<lambda>r. r_employeeId r \<notin> e_id ` (set (employees w)
                - set (keep_first {} (without_first_Dhivyaharini (employees w)))))
               (db_activities (server w))
       \<and> (\<forall>xs. distinct (map e_name (keep_first {} xs))
              \<and> e_name ` set (keep_first {} xs) = e_name ` set xs
              \<and> (\<forall>e \<in> set (keep_first {} xs). find (\<lambda>x. e_name x = e_name e) xs = Some e))"
proof -
  have on: "\<forall>n. online w n" and la: "\<forall>n. lists_all (employees_order w n)"
    using assms(1) by (simp_all add: creating_def)
  note js = sync_result [OF on la assms(2,3)]
  note raf = sync_raf_result [OF assms]
  have first: "\<forall>xs. distinct (map e_name (keep_first {} xs))
              \<and> e_name ` set (keep_first {} xs) = e_name ` set xs
              \<and> (\<forall>e \<in> set (keep_first {} xs). find (\<lambda>x. e_name x = e_name e) xs = Some e)"
    using keep_first_distinct keep_first_names [of "{}"] keep_first_first_occurrence by simp
  have js5: "duplicates {} (employees w) = [] \<longrightarrow> syncEmployees w = w"
    using js(5) by blast
  have js6: "duplicates {} (employees w) \<noteq> [] \<longrightarrow>
            (\<exists>n. employees (syncEmployees w)
                    = get_employees (employees_order w n) (server (syncEmployees w)))"
    using js(6) by blast
  show ?thesis
    using js(1-4) js5 js6 raf first by (intro conjI) assumption+
qed

text \<open>
  In \<open>roster_world\<close> the roster is \<open>Anitha\<close>, a second \<open>Anitha\<close> and \<open>Zed\<close>. The second
  \<open>Anitha\<close> goes, with its entry; the first keeps its id; \<open>Zed\<close>, who is not in
  \<open>allowedEmployees\<close>, stays.
\<close>

theorem sync_keeps_first_and_creates_missing_witness:
  "creating roster_world 23 \<and> roster_loaded roster_world
   \<and> employees_pkey (server roster_world)
   \<and> sent roster_world + length (employees roster_world) + 20 \<le> 23
   \<and> employees roster_world = [anitha, anitha_again, zed]
   \<and> employees (syncEmployees roster_world) = [anitha, zed]
   \<and> db_employees (server (syncEmployees roster_world)) = [anitha, zed]
   \<and> db_activities (server (syncEmployees roster_world))
       = [example_row\<lparr>r_employeeId := ''z''\<rparr>]
   \<and> anitha \<in> set (db_employees (server (syncEmployees_raf roster_world)))
   \<and> anitha_again \<notin> set (db_employees (server (syncEmployees_raf roster_world)))
   \<and> ''Yogesh'' \<in> e_name ` set (employees (syncEmployees_raf roster_world))
   \<and> db_activities (server (syncEmployees_raf roster_world))
       = [example_row\<lparr>r_employeeId := ''z''\<rparr>]"
proof -
  have c: "creating roster_world 23"
    by (rule roster_world_creating)
  have pk: "employees_pkey (server roster_world)"
    by (simp add: roster_world_facts roster_db_pkey)
  have h: "sent roster_world + length (employees roster_world) + 20 \<le> 23"
    by (simp add: roster_world_facts)
  have r: "employees roster_world = [anitha, anitha_again, zed]"
    by (simp add: roster_world_facts)
  note t = sync_keeps_first_and_creates_missing [OF c roster_world_loaded pk h,
      unfolded roster_world_facts roster_kept roster_rows_left roster_employees_left]
  note t1 = t [THEN conjunct1]
  note t2 = t [THEN conjunct2, THEN conjunct1]
  note u = t [THEN conjunct2, THEN conjunct2, THEN conjunct2, THEN conjunct2, THEN conjunct2]
  note t6 = u [THEN conjunct1]
  note v = u [THEN conjunct2, THEN conjunct2, THEN conjunct2]
  note t9 = v [THEN conjunct1]
  note t10 = v [THEN conjunct2, THEN conjunct1]
  note t11 = v [THEN conjunct2, THEN conjunct2, THEN conjunct1]
  from t6 have "\<exists>n::nat. employees (syncEmployees roster_world)
          = get_employees sort_by_name (server (syncEmployees roster_world))"
    by simp
  then have a1: "employees (syncEmployees roster_world) = [anitha, zed]"
    by (simp add: get_employees_def t1 roster_sorted)
  from t9 obtain added where added:
    "db_employees (server (syncEmployees_raf roster_world)) = [anitha, zed] @ added"
    "\<forall>e \<in> set added. e_name e \<in> set allowedEmployees \<and> e_name e \<notin> e_name ` set [anitha, zed]"
    by blast
  have b1: "anitha \<in> set (db_employees (server (syncEmployees_raf roster_world)))"
    by (simp add: added(1))
  have names: "e_name anitha_again = e_name anitha" "anitha_again \<noteq> anitha" "anitha_again \<noteq> zed"
    by (simp_all add: anitha_def anitha_again_def zed_def)
  have "anitha_again \<notin> set added"
  proof
    assume "anitha_again \<in> set added"
    with added(2) have "e_name anitha_again \<notin> e_name ` set [anitha, zed]"
      by blast
    with names(1) show False
      by simp
  qed
  with names(2,3) have b2: "anitha_again \<notin> set (db_employees (server (syncEmployees_raf roster_world)))"
    by (simp add: added(1))
  have y: "''Yogesh'' \<in> set allowedEmployees"
    by (simp add: allowedEmployees_def)
  with t10 have b3: "''Yogesh'' \<in> e_name ` set (employees (syncEmployees_raf roster_world))"
    by (rule subsetD)
  note a2 = t2
  note b4 = t11
  show ?thesis
    using c roster_world_loaded pk h r a1 t1 a2 b1 b2 b3 b4 by (intro conjI) assumption+
qed

text \<open>
  C8 as stated fails: after the reconciliation of either manager the employee named
  \<open>Zed\<close>, who is not in \<open>allowedEmployees\<close>, is still in the roster and in the table, with
  the activity row.
\<close>

theorem sync_keeps_unlisted_employee:
  "e_name zed \<notin> set allowedEmployees
   \<and> zed \<in> set (employees roster_world)
   \<and> zed \<in> set (db_employees (server roster_world))
   \<and> zed \<in> set (employees (syncEmployees_raf roster_world))
   \<and> zed \<in> set (db_employees (server (syncEmployees_raf roster_world)))
   \<and> zed \<in> set (employees (syncEmployees roster_world))
   \<and> zed \<in> set (db_employees (server (syncEmployees roster_world)))
   \<and> example_row\<lparr>r_employeeId := ''z''\<rparr>
       \<in> set (db_activities (server (syncEmployees_raf roster_world)))"
proof -
  have h: "sent roster_world + length (employees roster_world) + 20 \<le> 23"
    by (simp add: roster_world_facts)
  have pk: "employees_pkey (server roster_world)"
    by (simp add: roster_world_facts roster_db_pkey)
  have on: "\<forall>n. online roster_world n"
    and la: "\<forall>n. lists_all (employees_order roster_world n)"
    using roster_world_creating by (simp_all add: creating_def)
  note raf = sync_raf_result [OF roster_world_creating roster_world_loaded pk h,
      unfolded roster_world_facts roster_kept roster_rows_left roster_employees_left]
  note js = sync_result [OF on la roster_world_loaded pk,
      unfolded roster_world_facts roster_kept roster_rows_left roster_employees_left]
  from raf(3) obtain added where
    e: "db_employees (server (syncEmployees_raf roster_world)) = [anitha, zed] @ added"
    by blast
  have z2: "zed \<in> set (db_employees (server (syncEmployees_raf roster_world)))"
    by (simp add: e)
  from raf(1) have "set (employees (syncEmployees_raf roster_world))
      = set (db_employees (server (syncEmployees_raf roster_world)))"
    using lists_all_set [OF sort_by_name_lists_all] by (auto simp: get_employees_def)
  with z2 have z1: "zed \<in> set (employees (syncEmployees_raf roster_world))"
    by simp
  have z4: "zed \<in> set (db_employees (server (syncEmployees roster_world)))"
    by (simp add: js(1))
  from js(6) have "\<exists>n::nat. employees (syncEmployees roster_world)
          = get_employees sort_by_name (server (syncEmployees roster_world))"
    by simp
  then have z3: "zed \<in> set (employees (syncEmployees roster_world))"
    using z4 lists_all_set [OF sort_by_name_lists_all] by (auto simp: get_employees_def)
  have z5: "example_row\<lparr>r_employeeId := ''z''\<rparr>
       \<in> set (db_activities (server (syncEmployees_raf roster_world)))"
    by (simp add: raf(5))
  have z0: "zed \<in> set (employees roster_world)" "zed \<in> set (db_employees (server roster_world))"
    by (simp_all add: roster_world_facts)
  show ?thesis
    using zed_not_allowed z0 z1 z2 z3 z4 z5 by (intro conjI) assumption+
qed

section \<open>The constraints of the tables\<close>

text \<open>The three constraints \<open>initDb\<close> declares hold after any sequence of the modelled
  requests, so the theorems above that assume \<open>unique_activity\<close> or
  \<open>employees_pkey\<close> speak about every state the server can be in.\<close>

lemma upsert_employee_ids:
  "r_employeeId ` set (upsert new rows) \<subseteq> insert (r_employeeId new) (r_employeeId ` set rows)"
  by (auto simp: upsert_def split: if_splits)

lemma post_activities_constraints:
  assumes "post_activities body d = Some d'"
    and "unique_activity d" and "employees_pkey d" and "fk_employee d"
  shows "unique_activity d' \<and> employees_pkey d' \<and> fk_employee d'"
proof -
  from assms(1) obtain new where
    d': "d' = d\<lparr>db_activities := upsert new (db_activities d)\<rparr>"
    and e: "r_employeeId new \<in> set (map e_id (db_employees d))"
    by (auto simp: post_activities_def Let_def split: option.splits if_splits)
  have "r_employeeId ` set (upsert new (db_activities d)) \<subseteq> e_id ` set (db_employees d)"
    using upsert_employee_ids [of new "db_activities d"] e assms(4)
    by (auto simp: fk_employee_def list_all_iff)
  then have "fk_employee d'"
    by (auto simp: d' fk_employee_def list_all_iff)
  then show ?thesis
    using assms(2,3) by (simp add: d' unique_activity_def distinct_upsert employees_pkey_def)
qed

lemma update_employee_ids:
  "map e_id (map (\<lambda>e. if e_id e = i then e\<lparr>e_name := n, e_email := email\<rparr> else e) es)
     = map e_id es"
  by (induction es) simp_all

lemma post_employees_constraints:
  assumes "post_employees body d = Some d'"
    and "unique_activity d" and "employees_pkey d" and "fk_employee d"
  shows "unique_activity d' \<and> employees_pkey d' \<and> fk_employee d'"
proof -
  from assms(1) have acts: "db_activities d' = db_activities d"
    by (auto simp: post_employees_def Let_def split: option.splits if_splits)
  from assms(1) have
    "map e_id (db_employees d') = map e_id (db_employees d)
     \<or> (\<exists>i. map e_id (db_employees d') = map e_id (db_employees d) @ [i]
            \<and> i \<notin> set (map e_id (db_employees d)))"
    by (auto simp: post_employees_def Let_def update_employee_ids list_ex_iff
        split: option.splits if_splits)
  then consider
    (update) "map e_id (db_employees d') = map e_id (db_employees d)"
    | (insert) i where "map e_id (db_employees d') = map e_id (db_employees d) @ [i]"
      and "i \<notin> set (map e_id (db_employees d))"
    by blast
  then show ?thesis
  proof cases
    case update
    then show ?thesis
      using assms(2-4) acts
      by (simp add: unique_activity_def employees_pkey_def fk_employee_def)
  next
    case insert
    then show ?thesis
      using assms(2-4) acts
      by (auto simp: unique_activity_def employees_pkey_def fk_employee_def list_all_iff)
  qed
qed

lemma delete_activities_constraints:
  assumes "unique_activity d" and "employees_pkey d" and "fk_employee d"
  shows "unique_activity (snd (delete_activities t dk eid slot d))
       \<and> employees_pkey (snd (delete_activities t dk eid slot d))
       \<and> fk_employee (snd (delete_activities t dk eid slot d))"
  using assms
  by (auto simp: delete_activities_def Let_def unique_activity_def employees_pkey_def
      fk_employee_def list_all_iff distinct_map_filter split: option.splits)

lemma delete_employee_constraints:
  assumes "unique_activity d" and "employees_pkey d" and "fk_employee d"
  shows "unique_activity (snd (delete_employee t ident d))
       \<and> employees_pkey (snd (delete_employee t ident d))
       \<and> fk_employee (snd (delete_employee t ident d))"
  using assms
  by (auto simp: delete_employee_def Let_def unique_activity_def employees_pkey_def
      fk_employee_def list_all_iff distinct_map_filter)

lemma reachable_constraints:
  assumes "reachable d"
  shows "unique_activity d \<and> employees_pkey d \<and> fk_employee d"
  using assms
proof (induction rule: reachable.induct)
  case reach_init
  show ?case
    by (simp add: empty_db_def unique_activity_def employees_pkey_def fk_employee_def)
next
  case (reach_post_employees d body d')
  then show ?case
    using post_employees_constraints by blast
next
  case (reach_post_activities d pbody d')
  then show ?case
    using post_activities_constraints by blast
next
  case (reach_delete_activities d t dk eid slot)
  then show ?case
    using delete_activities_constraints by blast
next
  case (reach_delete_employee d t ident)
  then show ?case
    using delete_employee_constraints by blast
qed

end
